theory Spec2Isabelle
  imports Main "HOL-Library.Sublist" "HOL-Library.Multiset"
begin

section \<open>Strings and character classes\<close>

text \<open>
  A Python \<^verbatim>\<open>str\<close> is a sequence of Unicode code points.  A code point is a natural
  number here, so that the Chinese markers of the patterns are single characters, as
  they are for Python's \<^verbatim>\<open>re\<close>, \<^verbatim>\<open>in\<close>, \<^verbatim>\<open>startswith\<close> and \<^verbatim>\<open>split\<close>.
\<close>

type_synonym ustr = "nat list"

text \<open>An ASCII literal, written as an Isabelle string.\<close>

definition u :: "string \<Rightarrow> ustr" where
  "u s = map of_char s"

text \<open>
  \<^verbatim>\<open>\s\<close> in a \<^verbatim>\<open>str\<close> pattern is \<^verbatim>\<open>str.isspace\<close>: the code points
  U+0009..U+000D, U+001C..U+0020, U+0085, U+00A0, U+1680, U+2000..U+200A, U+2028,
  U+2029, U+202F, U+205F and U+3000.
\<close>

definition is_space :: "nat \<Rightarrow> bool" where
  "is_space c \<longleftrightarrow>
     (9 \<le> c \<and> c \<le> 13) \<or> (28 \<le> c \<and> c \<le> 32) \<or> c = 133 \<or> c = 160 \<or> c = 5760 \<or>
     (8192 \<le> c \<and> c \<le> 8202) \<or> c = 8232 \<or> c = 8233 \<or> c = 8239 \<or> c = 8287 \<or> c = 12288"

text \<open>
  \<^verbatim>\<open>\d\<close> in a \<^verbatim>\<open>str\<close> pattern is \<^verbatim>\<open>str.isdecimal\<close> (Unicode category Nd), and
  \<^verbatim>\<open>int\<close> accepts exactly these characters as digits.  In the Unicode database of
  CPython 3.11 (Unicode 14.0.0) the decimal digits are 66 runs of ten consecutive code
  points with the values 0 to 9; the list holds the first code point of every run.
\<close>

definition decimal_starts :: "nat list" where
  "decimal_starts =
    [48, 1632, 1776, 1984, 2406, 2534, 2662, 2790, 2918, 3046, 3174, 3302, 3430, 3558,
     3664, 3792, 3872, 4160, 4240, 6112, 6160, 6470, 6608, 6784, 6800, 6992, 7088, 7232,
     7248, 42528, 43216, 43264, 43472, 43504, 43600, 44016, 65296, 66720, 68912, 69734,
     69872, 69942, 70096, 70384, 70736, 70864, 71248, 71360, 71472, 71904, 72016, 72784,
     73040, 73120, 92768, 92864, 93008, 120782, 120792, 120802, 120812, 120822, 123200,
     123632, 125264, 130032]"

definition decimal_value :: "nat \<Rightarrow> nat option" where
  "decimal_value c =
     (case find (\<lambda>s. s \<le> c \<and> c < s + 10) decimal_starts of
        None \<Rightarrow> None
      | Some s \<Rightarrow> Some (c - s))"

definition is_decimal :: "nat \<Rightarrow> bool" where
  "is_decimal c \<longleftrightarrow> decimal_value c \<noteq> None"

text \<open>\<^verbatim>\<open>sub in s\<close> on strings: \<open>sub\<close> occurs in \<open>s\<close> as a contiguous block.\<close>

fun py_in :: "ustr \<Rightarrow> ustr \<Rightarrow> bool" where
  "py_in sub [] = (sub = [])"
| "py_in sub (x # xs) = (prefix sub (x # xs) \<or> py_in sub xs)"

text \<open>\<^verbatim>\<open>s.replace(',', '')\<close>.\<close>

definition remove_commas :: "ustr \<Rightarrow> ustr" where
  "remove_commas s = filter (\<lambda>c. c \<noteq> 44) s"

text \<open>
  \<^verbatim>\<open>int(s)\<close> on the strings the program passes to it, which hold decimal digits only
  (see \<open>remove_commas_decimal\<close>): the empty string raises \<^verbatim>\<open>ValueError\<close>, and so does a
  string of more than 4300 digits (the default \<^verbatim>\<open>sys.int_info.default_max_str_digits\<close>
  of CPython 3.11, leading zeros counted).  \<open>None\<close> is the \<^verbatim>\<open>ValueError\<close>.  Signs,
  blanks and underscores, which \<^verbatim>\<open>int\<close> also reads, never reach it and are not
  modelled: a string holding any other character is answered \<open>None\<close>.
\<close>

definition int_max_str_digits :: nat where
  "int_max_str_digits = 4300"

fun digits_value :: "nat \<Rightarrow> ustr \<Rightarrow> nat option" where
  "digits_value acc [] = Some acc"
| "digits_value acc (c # cs) =
     (case decimal_value c of
        None \<Rightarrow> None
      | Some d \<Rightarrow> digits_value (10 * acc + d) cs)"

definition py_int :: "ustr \<Rightarrow> int option" where
  "py_int s =
     (if s = [] \<or> int_max_str_digits < length s then None
      else map_option int (digits_value 0 s))"

section \<open>Regular expressions\<close>

text \<open>
  The fragment of \<^verbatim>\<open>re\<close> that the program's patterns use.  Every \<^verbatim>\<open>*\<close>, \<^verbatim>\<open>+\<close> and
  \<^verbatim>\<open>{n}\<close> of the source stands on a single character class, \<^verbatim>\<open>?\<close> stands on a group.
\<close>

datatype catom = CDigit | CSpace | CChar nat

type_synonym cls = "catom list"

datatype rx =
    Lit ustr
  | Seq rx rx
  | Alt rx rx
  | Opt rx
  | Star cls
  | Plus cls
  | Rep nat cls
  | Grp rx

fun in_catom :: "catom \<Rightarrow> nat \<Rightarrow> bool" where
  "in_catom CDigit c = is_decimal c"
| "in_catom CSpace c = is_space c"
| "in_catom (CChar k) c = (c = k)"

definition in_cls :: "cls \<Rightarrow> nat \<Rightarrow> bool" where
  "in_cls k c = list_ex (\<lambda>a. in_catom a c) k"

text \<open>A pattern written as the sequence of its parts.\<close>

fun seqs :: "rx list \<Rightarrow> rx" where
  "seqs [] = Lit []"
| "seqs [r] = r"
| "seqs (r # rs) = Seq r (seqs rs)"

text \<open>
  \<open>rx_match r s\<close> lists every way \<open>r\<close> matches at the start of \<open>s\<close>, in the order in
  which the backtracking matcher of \<^verbatim>\<open>re\<close> tries them: the captured groups (in the order
  of their opening parentheses) and the rest of the input.  A greedy repetition offers the
  longest run first, an optional part is tried before it is skipped, and the left branch of
  an alternation comes before the right one.  The head of the list is the match that
  \<^verbatim>\<open>re\<close> reports.
\<close>

fun rx_match :: "rx \<Rightarrow> ustr \<Rightarrow> (ustr list \<times> ustr) list" where
  "rx_match (Lit l) s = (if prefix l s then [([], drop (length l) s)] else [])"
| "rx_match (Seq a b) s =
     concat (map (\<lambda>(g1, s1). map (\<lambda>(g2, s2). (g1 @ g2, s2)) (rx_match b s1)) (rx_match a s))"
| "rx_match (Alt a b) s = rx_match a s @ rx_match b s"
| "rx_match (Opt a) s = rx_match a s @ [([], s)]"
| "rx_match (Star k) s =
     map (\<lambda>i. ([], drop i s)) (rev [0 ..< Suc (length (takeWhile (in_cls k) s))])"
| "rx_match (Plus k) s =
     map (\<lambda>i. ([], drop i s)) (rev [1 ..< Suc (length (takeWhile (in_cls k) s))])"
| "rx_match (Rep n k) s =
     (if n \<le> length (takeWhile (in_cls k) s) then [([], drop n s)] else [])"
| "rx_match (Grp a) s =
     map (\<lambda>(g, rest). (take (length s - length rest) s # g, rest)) (rx_match a s)"

text \<open>
  \<^verbatim>\<open>re.search(r, s)\<close>: the match at the leftmost start position that has one; the result
  is the list of its groups, \<open>None\<close> when no position matches.
\<close>

fun rx_search :: "rx \<Rightarrow> ustr \<Rightarrow> ustr list option" where
  "rx_search r [] = (case rx_match r [] of [] \<Rightarrow> None | (g, _) # _ \<Rightarrow> Some g)"
| "rx_search r (x # xs) =
     (case rx_match r (x # xs) of [] \<Rightarrow> rx_search r xs | (g, _) # _ \<Rightarrow> Some g)"

text \<open>
  \<^verbatim>\<open>m.group(n)\<close> for \<open>n \<ge> 1\<close>.  Python raises \<^verbatim>\<open>IndexError\<close> for a group the pattern
  does not have; every call of the program names a group of its pattern, and the model
  answers the empty string otherwise.
\<close>

definition group :: "ustr list \<Rightarrow> nat \<Rightarrow> ustr" where
  "group g n = (if 0 < n \<and> n \<le> length g then g ! (n - 1) else [])"

section \<open>The markers of the patterns\<close>

text \<open>The Chinese words of the source, by code point.\<close>

definition huo :: ustr where \<comment> \<open>"or", U+6216\<close>
  "huo = [0x6216]"

definition fanxin :: ustr where \<comment> \<open>"refurbished", U+7FFB U+65B0\<close>
  "fanxin = [0x7FFB, 0x65B0]"

definition tongyi_neicun :: ustr where \<comment> \<open>"unified memory", U+7EDF U+4E00 U+5185 U+5B58\<close>
  "tongyi_neicun = [0x7EDF, 0x4E00, 0x5185, 0x5B58]"

definition gutai_yingpan :: ustr where \<comment> \<open>"solid-state drive", U+56FA U+6001 U+786C U+76D8\<close>
  "gutai_yingpan = [0x56FA, 0x6001, 0x786C, 0x76D8]"

definition zuichu_fabu_yu :: ustr where
  \<comment> \<open>"originally released in", U+6700 U+521D U+53D1 U+5E03 U+4E8E\<close>
  "zuichu_fabu_yu = [0x6700, 0x521D, 0x53D1, 0x5E03, 0x4E8E]"

definition nian :: ustr where \<comment> \<open>"year", U+5E74\<close>
  "nian = [0x5E74]"

definition yingcun :: ustr where \<comment> \<open>"inch", U+82F1 U+5BF8\<close>
  "yingcun = [0x82F1, 0x5BF8]"

definition he :: ustr where \<comment> \<open>"core", U+6838\<close>
  "he = [0x6838]"

definition he_zhongyang_chuliqi :: ustr where
  \<comment> \<open>"-core central processor", U+6838 U+4E2D U+592E U+5904 U+7406 U+5668\<close>
  "he_zhongyang_chuliqi = [0x6838, 0x4E2D, 0x592E, 0x5904, 0x7406, 0x5668]"

definition he_tuxing_chuliqi :: ustr where
  \<comment> \<open>"-core graphics processor", U+6838 U+56FE U+5F62 U+5904 U+7406 U+5668\<close>
  "he_tuxing_chuliqi = [0x6838, 0x56FE, 0x5F62, 0x5904, 0x7406, 0x5668]"

definition xianshiping :: ustr where \<comment> \<open>"display", U+663E U+793A U+5C4F\<close>
  "xianshiping = [0x663E, 0x793A, 0x5C4F]"

definition shenkong_huise :: ustr where \<comment> \<open>"space grey", U+6DF1 U+7A7A U+7070 U+8272\<close>
  "shenkong_huise = [0x6DF1, 0x7A7A, 0x7070, 0x8272]"

definition shenkong_heise :: ustr where \<comment> \<open>"space black", U+6DF1 U+7A7A U+9ED1 U+8272\<close>
  "shenkong_heise = [0x6DF1, 0x7A7A, 0x9ED1, 0x8272]"

definition yinse :: ustr where \<comment> \<open>"silver", U+94F6 U+8272\<close>
  "yinse = [0x94F6, 0x8272]"

definition xingguangse :: ustr where \<comment> \<open>"starlight", U+661F U+5149 U+8272\<close>
  "xingguangse = [0x661F, 0x5149, 0x8272]"

definition wuyese :: ustr where \<comment> \<open>"midnight", U+5348 U+591C U+8272\<close>
  "wuyese = [0x5348, 0x591C, 0x8272]"

definition tianlanse :: ustr where \<comment> \<open>"sky blue", U+5929 U+84DD U+8272\<close>
  "tianlanse = [0x5929, 0x84DD, 0x8272]"

definition jinse :: ustr where \<comment> \<open>"gold", U+91D1 U+8272\<close>
  "jinse = [0x91D1, 0x8272]"

definition meigui_jinse :: ustr where \<comment> \<open>"rose gold", U+73AB U+7470 U+91D1 U+8272\<close>
  "meigui_jinse = [0x73AB, 0x7470, 0x91D1, 0x8272]"

section \<open>The patterns of the source\<close>

text \<open>\<^verbatim>\<open>U+6216 \s*RMB\s*([\d,]+)\<close>, the pattern with the leading "or".\<close>

definition price_re_or :: rx where
  "price_re_or =
     seqs [Lit huo, Star [CSpace], Lit (u ''RMB''), Star [CSpace],
           Grp (Plus [CDigit, CChar 44])]"

text \<open>\<^verbatim>\<open>RMB\s*([\d,]+)\<close>.\<close>

definition price_re :: rx where
  "price_re = seqs [Lit (u ''RMB''), Star [CSpace], Grp (Plus [CDigit, CChar 44])]"

text \<open>\<^verbatim>\<open>(\d+)\s*GB\s*\<close> followed by the unified-memory marker.\<close>

definition memory_re :: rx where
  "memory_re =
     seqs [Grp (Plus [CDigit]), Star [CSpace], Lit (u ''GB''), Star [CSpace],
           Lit tongyi_neicun]"

text \<open>\<^verbatim>\<open>(\d+)\s*(GB|TB)\s*\<close> followed by the solid-state-drive marker.\<close>

definition storage_re :: rx where
  "storage_re =
     seqs [Grp (Plus [CDigit]), Star [CSpace], Grp (Alt (Lit (u ''GB'')) (Lit (u ''TB''))),
           Star [CSpace], Lit gutai_yingpan]"

text \<open>The released-in marker, then \<^verbatim>\<open>\s*(\d{4})\s*\<close>, then the year marker.\<close>

definition year_re :: rx where
  "year_re =
     seqs [Lit zuichu_fabu_yu, Star [CSpace], Grp (Rep 4 [CDigit]), Star [CSpace], Lit nian]"

text \<open>\<^verbatim>\<open>(\d+(?:\.\d+)?)\s*\<close> followed by the inch marker.\<close>

definition screen_re :: rx where
  "screen_re =
     seqs [Grp (Seq (Plus [CDigit]) (Opt (Seq (Lit [46]) (Plus [CDigit])))),
           Star [CSpace], Lit yingcun]"

text \<open>\<^verbatim>\<open>Apple (M\d+(?:\s+(?:Pro|Max|Ultra))?)\<close>.\<close>

definition chip_re :: rx where
  "chip_re =
     seqs [Lit (u ''Apple ''),
           Grp (seqs [Lit (u ''M''), Plus [CDigit],
                      Opt (Seq (Plus [CSpace])
                            (Alt (Lit (u ''Pro'')) (Alt (Lit (u ''Max'')) (Lit (u ''Ultra'')))))])]"

text \<open>\<^verbatim>\<open>(\d+)\s*\<close> followed by the central-processor marker.\<close>

definition cpu_re :: rx where
  "cpu_re = seqs [Grp (Plus [CDigit]), Star [CSpace], Lit he_zhongyang_chuliqi]"

text \<open>\<^verbatim>\<open>(\d+)\s*\<close> followed by the graphics-processor marker.\<close>

definition gpu_re :: rx where
  "gpu_re = seqs [Grp (Plus [CDigit]), Star [CSpace], Lit he_tuxing_chuliqi]"

section \<open>Products\<close>

text \<open>
  A product is a Python \<^verbatim>\<open>dict\<close> with string keys.  Its values are strings, and the
  integer that \<open>fetch_product_details\<close> stores under \<^verbatim>\<open>'price'\<close>.
\<close>

datatype val = S ustr | I int

type_synonym product = "string \<rightharpoonup> val"

text \<open>The truth value of \<^verbatim>\<open>not v\<close> is \<open>\<not> truthy v\<close>.\<close>

fun truthy :: "val \<Rightarrow> bool" where
  "truthy (S s) = (s \<noteq> [])"
| "truthy (I n) = (n \<noteq> 0)"

datatype py_error = KeyError | TypeError

section \<open>\<^verbatim>\<open>fetch_page\<close>\<close>

text \<open>
  The network is a parameter: \<open>net url k\<close> is the outcome of the \<open>k\<close>-th
  \<^verbatim>\<open>requests.get\<close> (counted from 0) that one call of \<^verbatim>\<open>fetch_page\<close> sends to \<open>url\<close>,
  \<open>Inr\<close> the text of a response that passes \<^verbatim>\<open>raise_for_status\<close>, \<open>Inl\<close> the exception
  raised by the request or by the status check.  What the function does besides returning
  is a list of events: the requests sent, the calls of \<^verbatim>\<open>time.sleep\<close> (in seconds) and the
  lines printed.
\<close>

type_synonym network = "ustr \<Rightarrow> nat \<Rightarrow> ustr + ustr"

datatype msg =
    FetchFailed ustr ustr
  | Started nat
  | PleaseWait
  | Progress nat nat
  | Finished nat nat

datatype event = Get ustr | Sleep nat | Print msg

text \<open>
  The loop \<^verbatim>\<open>for attempt in range(retry)\<close>, over the attempts still to make.  Running out
  of attempts reaches the final \<^verbatim>\<open>return None\<close>.
\<close>

fun fetch_attempts :: "network \<Rightarrow> ustr \<Rightarrow> nat \<Rightarrow> nat list \<Rightarrow> event list \<times> ustr option" where
  "fetch_attempts net url retry [] = ([], None)"
| "fetch_attempts net url retry (attempt # rest) =
     (case net url attempt of
        Inr body \<Rightarrow> ([Get url], Some body)
      | Inl e \<Rightarrow>
          if attempt = retry - 1 then ([Get url, Print (FetchFailed url e)], None)
          else (let (evs, r) = fetch_attempts net url retry rest
                in (Get url # Sleep 1 # evs, r)))"

definition fetch_page :: "network \<Rightarrow> ustr \<Rightarrow> nat \<Rightarrow> event list \<times> ustr option" where
  "fetch_page net url retry = fetch_attempts net url retry [0 ..< retry]"

section \<open>\<^verbatim>\<open>parse_product_list\<close>\<close>

text \<open>
  The links that \<^verbatim>\<open>soup.find_all('a', href=...)\<close> returns, in document order, are the
  input: for each its \<^verbatim>\<open>href\<close> attribute and its \<^verbatim>\<open>get_text(strip=True)\<close>.
\<close>

record link =
  href :: ustr
  link_text :: ustr

definition origin :: ustr where
  "origin = u ''https://www.apple.com.cn''"

text \<open>
  The three statements that compute \<^verbatim>\<open>url\<close>: the origin is put before a \<^verbatim>\<open>href\<close> that
  does not start with \<^verbatim>\<open>http\<close>, and \<^verbatim>\<open>split('?')[0]\<close> keeps what stands before the first
  question mark (code point 63).
\<close>

definition normalize_url :: "ustr \<Rightarrow> ustr" where
  "normalize_url h =
     (let url = (if \<not> prefix (u ''http'') h then origin @ h else h)
      in takeWhile (\<lambda>c. c \<noteq> 63) url)"

definition new_product :: "ustr \<Rightarrow> ustr \<Rightarrow> product" where
  "new_product title url = [''title'' \<mapsto> S title, ''url'' \<mapsto> S url]"

fun parse_links :: "link list \<Rightarrow> ustr set \<Rightarrow> product list \<Rightarrow> product list" where
  "parse_links [] seen_urls products = products"
| "parse_links (l # ls) seen_urls products =
     (let title = link_text l in
      if prefix fanxin title then
        (let url = normalize_url (href l) in
         if url \<notin> seen_urls
         then parse_links ls (insert url seen_urls) (products @ [new_product title url])
         else parse_links ls seen_urls products)
      else parse_links ls seen_urls products)"

definition parse_product_list :: "link list \<Rightarrow> product list" where
  "parse_product_list product_links = parse_links product_links {} []"

section \<open>\<^verbatim>\<open>fetch_product_details\<close>\<close>

text \<open>The price block: the pattern with "or" first, the bare pattern when it finds nothing.\<close>

definition price_match :: "ustr \<Rightarrow> ustr list option" where
  "price_match t =
     (case rx_search price_re_or t of
        None \<Rightarrow> rx_search price_re t
      | Some g \<Rightarrow> Some g)"

text \<open>\<open>None\<close> is the \<^verbatim>\<open>return None\<close> of the block, on no match and on \<^verbatim>\<open>ValueError\<close>.\<close>

definition detail_price :: "ustr \<Rightarrow> int option" where
  "detail_price t =
     (case price_match t of
        None \<Rightarrow> None
      | Some g \<Rightarrow> py_int (remove_commas (group g 1)))"

definition detail_memory :: "ustr \<Rightarrow> ustr" where
  "detail_memory t =
     (case rx_search memory_re t of
        None \<Rightarrow> []
      | Some g \<Rightarrow> group g 1 @ u ''GB'')"

definition detail_storage :: "ustr \<Rightarrow> ustr" where
  "detail_storage t =
     (case rx_search storage_re t of
        None \<Rightarrow> []
      | Some g \<Rightarrow> group g 1 @ group g 2)"

definition detail_release_year :: "ustr \<Rightarrow> ustr" where
  "detail_release_year t =
     (case rx_search year_re t of
        None \<Rightarrow> []
      | Some g \<Rightarrow> group g 1)"

text \<open>
  The assignments to \<^verbatim>\<open>product\<close> of lines 89 to 116, for the text \<open>t\<close> of the detail page
  and the price \<open>n\<close> read from it.
\<close>

definition enrich :: "product \<Rightarrow> ustr \<Rightarrow> int \<Rightarrow> product" where
  "enrich product t n =
     product(''price'' \<mapsto> I n,
             ''memory'' \<mapsto> S (detail_memory t),
             ''storage'' \<mapsto> S (detail_storage t),
             ''release_year'' \<mapsto> S (detail_release_year t))"

text \<open>
  \<open>get_text\<close> is the parameter for \<^verbatim>\<open>BeautifulSoup(html, 'html.parser').get_text()\<close>.
  The result \<open>None\<close> is \<^verbatim>\<open>return None\<close>.  A \<^verbatim>\<open>url\<close> that is a non-zero integer makes every
  \<^verbatim>\<open>requests.get\<close> raise inside \<^verbatim>\<open>fetch_page\<close>, which then returns \<^verbatim>\<open>None\<close>.  The
  function's own prints and its pacing sleep are not part of the model.
\<close>

definition fetch_product_details :: "network \<Rightarrow> (ustr \<Rightarrow> ustr) \<Rightarrow> product \<Rightarrow> product option" where
  "fetch_product_details net get_text product =
     (let url = (case product ''url'' of None \<Rightarrow> S [] | Some v \<Rightarrow> v) in
      if \<not> truthy url then None
      else case url of
        I n \<Rightarrow> None
      | S url_s \<Rightarrow>
         (case snd (fetch_page net url_s 2) of
            None \<Rightarrow> None
          | Some html \<Rightarrow>
             if html = [] then None
             else (let t = get_text html in
                   case detail_price t of
                     None \<Rightarrow> None
                   | Some n \<Rightarrow> Some (enrich product t n))))"

section \<open>\<^verbatim>\<open>extract_basic_details\<close>\<close>

definition title_model :: "ustr \<Rightarrow> ustr" where
  "title_model title =
     (if py_in (u ''MacBook Air'') title then u ''MacBook Air''
      else if py_in (u ''MacBook Pro'') title then u ''MacBook Pro''
      else if py_in (u ''Mac mini'') title then u ''Mac mini''
      else if py_in (u ''Mac Studio'') title then u ''Mac Studio''
      else if py_in (u ''Mac Pro'') title then u ''Mac Pro''
      else if py_in (u ''iMac'') title then u ''iMac''
      else if py_in xianshiping title \<or> py_in (u ''Display'') title then xianshiping
      else [])"

definition title_screen_size :: "ustr \<Rightarrow> ustr" where
  "title_screen_size title =
     (case rx_search screen_re title of None \<Rightarrow> [] | Some g \<Rightarrow> group g 1 @ yingcun)"

definition title_chip :: "ustr \<Rightarrow> ustr" where
  "title_chip title =
     (case rx_search chip_re title of None \<Rightarrow> [] | Some g \<Rightarrow> group g 1)"

definition title_cpu_cores :: "ustr \<Rightarrow> ustr" where
  "title_cpu_cores title =
     (case rx_search cpu_re title of None \<Rightarrow> [] | Some g \<Rightarrow> group g 1 @ he)"

definition title_gpu_cores :: "ustr \<Rightarrow> ustr" where
  "title_gpu_cores title =
     (case rx_search gpu_re title of None \<Rightarrow> [] | Some g \<Rightarrow> group g 1 @ he)"

definition colors :: "ustr list" where
  "colors = [shenkong_huise, shenkong_heise, yinse, xingguangse, wuyese, tianlanse,
             jinse, meigui_jinse]"

text \<open>The loop over \<^verbatim>\<open>colors\<close> with its \<^verbatim>\<open>break\<close>; \<open>d\<close> is the value the field has before.\<close>

fun first_color :: "ustr list \<Rightarrow> ustr \<Rightarrow> ustr \<Rightarrow> ustr" where
  "first_color [] title d = d"
| "first_color (color # rest) title d =
     (if py_in color title then color else first_color rest title d)"

text \<open>The dictionary \<^verbatim>\<open>details\<close>, as its items in insertion order.\<close>

definition extract_basic_details :: "ustr \<Rightarrow> (string \<times> ustr) list" where
  "extract_basic_details title =
     [(''model'', title_model title),
      (''screen_size'', title_screen_size title),
      (''chip'', title_chip title),
      (''cpu_cores'', title_cpu_cores title),
      (''gpu_cores'', title_gpu_cores title),
      (''color'', first_color colors title [])]"

section \<open>\<^verbatim>\<open>process_products_parallel\<close>\<close>

text \<open>
  The futures complete in an order the program does not control: \<open>order\<close> lists the
  positions of the products in the order in which \<^verbatim>\<open>as_completed\<close> yields their futures,
  each position once.  \<open>collect\<close> is the loop over \<^verbatim>\<open>as_completed(futures)\<close>; a result is a
  dictionary holding \<^verbatim>\<open>'price'\<close>, hence true in \<^verbatim>\<open>if result\<close>, or \<^verbatim>\<open>None\<close>.  The task
  catches every exception, so \<^verbatim>\<open>future.result()\<close> raises none.
\<close>

fun collect ::
  "(product \<Rightarrow> product option) \<Rightarrow> product list \<Rightarrow> nat list \<Rightarrow> nat \<Rightarrow> product list \<Rightarrow>
     event list \<times> product list" where
  "collect task products [] completed results = ([], results)"
| "collect task products (i # rest) completed results =
     (let completed = completed + 1;
          progress = (if completed mod 10 = 0
                      then [Print (Progress completed (length products))] else []);
          results = (case task (products ! i) of
                       None \<Rightarrow> results
                     | Some r \<Rightarrow> results @ [r]);
          (evs, out) = collect task products rest completed results
      in (progress @ evs, out))"

definition process_products_parallel ::
  "network \<Rightarrow> (ustr \<Rightarrow> ustr) \<Rightarrow> nat list \<Rightarrow> product list \<Rightarrow> event list \<times> product list" where
  "process_products_parallel net get_text order products =
     (let (evs, results) = collect (fetch_product_details net get_text) products order 0 []
      in (Print (Started (length products)) # Print PleaseWait # evs @
            [Print (Finished (length results) (length products))],
          results))"

section \<open>\<^verbatim>\<open>create_dataframe\<close>\<close>

text \<open>
  The loop body of lines 214 to 219 for one product: the items of \<^verbatim>\<open>basic_details\<close> are
  written where the key is missing or its value is false.
\<close>

definition fill_item :: "string \<times> ustr \<Rightarrow> product \<Rightarrow> product" where
  "fill_item kv product =
     (case product (fst kv) of
        None \<Rightarrow> product(fst kv \<mapsto> S (snd kv))
      | Some w \<Rightarrow> if \<not> truthy w then product(fst kv \<mapsto> S (snd kv)) else product)"

text \<open>
  \<^verbatim>\<open>product['title']\<close> raises \<^verbatim>\<open>KeyError\<close> without the key, and the \<^verbatim>\<open>in\<close> of
  \<open>extract_basic_details\<close> raises \<^verbatim>\<open>TypeError\<close> on an integer.
\<close>

definition fill_product :: "product \<Rightarrow> py_error + product" where
  "fill_product product =
     (case product ''title'' of
        None \<Rightarrow> Inl KeyError
      | Some (I n) \<Rightarrow> Inl TypeError
      | Some (S title) \<Rightarrow> Inr (fold fill_item (extract_basic_details title) product))"

fun fill_products :: "product list \<Rightarrow> py_error + product list" where
  "fill_products [] = Inr []"
| "fill_products (p # ps) =
     (case fill_product p of
        Inl e \<Rightarrow> Inl e
      | Inr p' \<Rightarrow> (case fill_products ps of Inl e \<Rightarrow> Inl e | Inr ps' \<Rightarrow> Inr (p' # ps')))"

text \<open>
  A \<^verbatim>\<open>DataFrame\<close>: the column labels, the row labels and the rows, each row holding one
  cell per column.  \<open>NaN\<close> is the cell of a key that a record lacks.
\<close>

datatype cell = Val val | NaN

record dataframe =
  columns :: "string list"
  index :: "nat list"
  rows :: "cell list list"

definition columns_order :: "string list" where
  "columns_order = [''model'', ''screen_size'', ''chip'', ''cpu_cores'', ''gpu_cores'',
                    ''color'', ''memory'', ''storage'', ''release_year'', ''price'',
                    ''title'', ''url'']"

text \<open>
  The cell of record \<open>p\<close> in column \<open>c\<close> after lines 222 to 236: a key that no record has is
  not a column of \<^verbatim>\<open>pd.DataFrame(products)\<close> and is added as a column of empty strings.
\<close>

definition cell_of :: "product list \<Rightarrow> product \<Rightarrow> string \<Rightarrow> cell" where
  "cell_of products p c =
     (if list_all (\<lambda>q. q c = None) products then Val (S [])
      else case p c of None \<Rightarrow> NaN | Some v \<Rightarrow> Val v)"

definition ordered_frame :: "product list \<Rightarrow> dataframe" where
  "ordered_frame products =
     \<lparr>columns = columns_order,
      index = [0 ..< length products],
      rows = map (\<lambda>p. map (cell_of products p) columns_order) products\<rparr>"

text \<open>\<^verbatim>\<open>df.reset_index(drop=True)\<close>.\<close>

definition reset_index :: "dataframe \<Rightarrow> dataframe" where
  "reset_index df = df\<lparr>index := [0 ..< length (rows df)]\<rparr>"

text \<open>
  \<open>sort_values\<close> is the parameter for the method of that name of pandas, called with a
  column label and the defaults (\<^verbatim>\<open>kind='quicksort'\<close>); \<open>None\<close> is an exception raised
  by it.
\<close>

definition create_dataframe ::
  "(string \<Rightarrow> dataframe \<Rightarrow> dataframe option) \<Rightarrow> product list \<Rightarrow> py_error + dataframe" where
  "create_dataframe sort_values products =
     (if products = [] then Inr \<lparr>columns = [], index = [], rows = []\<rparr>
      else case fill_products products of
        Inl e \<Rightarrow> Inl e
      | Inr filled \<Rightarrow>
         (case sort_values ''price'' (ordered_frame filled) of
            None \<Rightarrow> Inl TypeError
          | Some df \<Rightarrow> Inr (reset_index df)))"

text \<open>The cells of column \<open>c\<close>, one per row.\<close>

definition column_pos :: "string list \<Rightarrow> string \<Rightarrow> nat" where
  "column_pos cs c = length (takeWhile (\<lambda>x. x \<noteq> c) cs)"

definition column :: "dataframe \<Rightarrow> string \<Rightarrow> cell list" where
  "column df c = map (\<lambda>r. r ! column_pos (columns df) c) (rows df)"

fun int_cell :: "cell \<Rightarrow> int option" where
  "int_cell (Val (I n)) = Some n"
| "int_cell _ = None"

text \<open>
  What the documentation of pandas promises of \<open>sort_values\<close>: the result has the
  columns of the argument, and on a frame whose column \<open>by\<close> holds integers only the
  labelled rows of the result are the labelled rows of the argument in some order, and the
  column ascends.  With the default \<^verbatim>\<open>kind='quicksort'\<close> nothing is promised about rows
  with equal keys.
\<close>

definition labelled_rows :: "dataframe \<Rightarrow> (nat \<times> cell list) list" where
  "labelled_rows df = zip (index df) (rows df)"

definition int_column :: "dataframe \<Rightarrow> string \<Rightarrow> int list option" where
  "int_column df c =
     (if list_all (\<lambda>x. int_cell x \<noteq> None) (column df c)
      then Some (map (\<lambda>x. case int_cell x of Some n \<Rightarrow> n | None \<Rightarrow> 0) (column df c))
      else None)"

definition sorts_int_columns :: "(string \<Rightarrow> dataframe \<Rightarrow> dataframe option) \<Rightarrow> bool" where
  "sorts_int_columns sort_values \<longleftrightarrow>
     (\<forall>by df df'. sort_values by df = Some df' \<longrightarrow> columns df' = columns df) \<and>
     (\<forall>by df. by \<in> set (columns df) \<and> length (index df) = length (rows df) \<and>
        int_column df by \<noteq> None \<longrightarrow>
        (\<exists>df'. sort_values by df = Some df' \<and>
           length (index df') = length (rows df') \<and>
           mset (labelled_rows df') = mset (labelled_rows df) \<and>
           (\<exists>ks. int_column df' by = Some ks \<and> sorted ks)))"

text \<open>
  Two functions that keep this promise, for the examples: one sorts the labelled rows by
  insertion and keeps rows with equal keys in their order, the other one turns the order
  of rows with equal keys around.
\<close>

definition keyed_rows :: "dataframe \<Rightarrow> string \<Rightarrow> (int \<times> nat \<times> cell list) list option" where
  "keyed_rows df by = map_option (\<lambda>ks. zip ks (labelled_rows df)) (int_column df by)"

definition frame_of :: "string list \<Rightarrow> (int \<times> nat \<times> cell list) list \<Rightarrow> dataframe" where
  "frame_of cs krs = \<lparr>columns = cs, index = map (fst \<circ> snd) krs, rows = map (snd \<circ> snd) krs\<rparr>"

definition stable_sort_values :: "string \<Rightarrow> dataframe \<Rightarrow> dataframe option" where
  "stable_sort_values by df =
     map_option (\<lambda>krs. frame_of (columns df) (sort_key fst krs)) (keyed_rows df by)"


section \<open>The list discoverer as the specification words it\<close>

text \<open>
  The links whose text starts with the refurbished marker, their normalized URLs without
  repetitions in the order of first appearance, and for each URL the text of the first
  such link that has it.
\<close>

definition refurbished :: "link \<Rightarrow> bool" where
  "refurbished l \<longleftrightarrow> prefix fanxin (link_text l)"

definition first_occurrences :: "'a list \<Rightarrow> 'a list" where
  "first_occurrences xs = rev (remdups (rev xs))"

definition first_title :: "link list \<Rightarrow> ustr \<Rightarrow> ustr" where
  "first_title ls url =
     (case find (\<lambda>l. normalize_url (href l) = url) ls of
        None \<Rightarrow> []
      | Some l \<Rightarrow> link_text l)"

definition discover_spec :: "link list \<Rightarrow> product list" where
  "discover_spec links =
     (let kept = filter refurbished links
      in map (\<lambda>url. new_product (first_title kept url) url)
           (first_occurrences (map (\<lambda>l. normalize_url (href l)) kept)))"

text \<open>The string stored under a key, empty when the key is missing or holds an integer.\<close>

definition str_of :: "product \<Rightarrow> string \<Rightarrow> ustr" where
  "str_of p k = (case p k of Some (S s) \<Rightarrow> s | _ \<Rightarrow> [])"


section \<open>The fill rule as the specification words it\<close>

text \<open>
  The value of key \<open>k\<close> after the title-derived items \<open>kvs\<close> have been filled into \<open>p\<close>:
  an item is written where \<open>p\<close> has no value or an empty one, and nowhere else.
\<close>

definition filled_value :: "product \<Rightarrow> (string \<times> ustr) list \<Rightarrow> string \<Rightarrow> val option" where
  "filled_value p kvs k =
     (case map_of kvs k of
        None \<Rightarrow> p k
      | Some v \<Rightarrow> (case p k of
                     None \<Rightarrow> Some (S v)
                   | Some w \<Rightarrow> if truthy w then Some w else Some (S v)))"

section \<open>The patterns as the specification words them\<close>


definition spaces :: "ustr \<Rightarrow> bool" where
  "spaces ws \<longleftrightarrow> (\<forall>c \<in> set ws. is_space c)"

definition price_chars :: "ustr \<Rightarrow> bool" where
  "price_chars d \<longleftrightarrow> d \<noteq> [] \<and> (\<forall>c \<in> set d. is_decimal c \<or> c = 44)"

definition price_occurs :: "ustr \<Rightarrow> ustr \<Rightarrow> bool" where
  "price_occurs t d \<longleftrightarrow>
     (\<exists>pre ws post. t = pre @ u ''RMB'' @ ws @ d @ post \<and> spaces ws \<and> price_chars d)"

definition price_or_occurs :: "ustr \<Rightarrow> ustr \<Rightarrow> bool" where
  "price_or_occurs t d \<longleftrightarrow>
     (\<exists>pre ws1 ws post. t = pre @ huo @ ws1 @ u ''RMB'' @ ws @ d @ post \<and>
        spaces ws1 \<and> spaces ws \<and> price_chars d)"




text \<open>
  What \<^verbatim>\<open>re.search\<close> promises: no match when the pattern matches at no position of the
  text, and otherwise the first match that the matcher finds at the leftmost position that
  has one.
\<close>

definition no_match :: "rx \<Rightarrow> ustr \<Rightarrow> bool" where
  "no_match r t \<longleftrightarrow> (\<forall>pre s. t = pre @ s \<longrightarrow> rx_match r s = [])"



text \<open>The URLs of the links that the list discoverer keeps, in document order.\<close>

definition kept_urls :: "link list \<Rightarrow> ustr list" where
  "kept_urls ls = map (\<lambda>l. normalize_url (href l)) (filter refurbished ls)"

section \<open>Inputs of the scenarios\<close>




text \<open>A network on which every request succeeds with the same body.\<close>

definition serving :: "ustr \<Rightarrow> network" where
  "serving body url k = Inr body"

text \<open>A record as the detail pipeline leaves it when the page names price only.\<close>

definition enriched :: "ustr \<Rightarrow> ustr \<Rightarrow> int \<Rightarrow> product" where
  "enriched title url n =
     [''title'' \<mapsto> S title, ''url'' \<mapsto> S url, ''price'' \<mapsto> I n,
      ''memory'' \<mapsto> S [], ''storage'' \<mapsto> S [], ''release_year'' \<mapsto> S []]"

text \<open>The row of such a record after the fill, when its title names no basic detail.\<close>

definition plain_row :: "ustr \<Rightarrow> ustr \<Rightarrow> int \<Rightarrow> cell list" where
  "plain_row title url n =
     [Val (S []), Val (S []), Val (S []), Val (S []), Val (S []), Val (S []),
      Val (S []), Val (S []), Val (S []), Val (I n), Val (S title), Val (S url)]"

section \<open>The matcher, declaratively\<close>

lemma py_in_sublist: "py_in sub s \<longleftrightarrow> sublist sub s"
  by (induction s) (auto simp: sublist_Cons_right)

lemma rx_match_suffix:
  "(g, rest) \<in> set (rx_match r s) \<Longrightarrow> \<exists>w. s = w @ rest"
proof (induction r arbitrary: g rest s)
  case (Lit l)
  then show ?case by (auto simp: prefix_def split: if_splits)
next
  case (Seq a b)
  then obtain g1 s1 g2 where "(g1, s1) \<in> set (rx_match a s)" "(g2, rest) \<in> set (rx_match b s1)"
    by auto
  then show ?case using Seq.IH by (metis append.assoc)
next
  case (Alt a b)
  then show ?case by auto
next
  case (Opt a)
  then show ?case by auto
next
  case (Star k)
  then obtain i where "rest = drop i s" by (auto simp del: upt_Suc)
  then have "s = take i s @ rest" by simp
  then show ?case by blast
next
  case (Plus k)
  then obtain i where "rest = drop i s" by (auto simp del: upt_Suc)
  then have "s = take i s @ rest" by simp
  then show ?case by blast
next
  case (Rep n k)
  then have "rest = drop n s" by (auto split: if_splits)
  then have "s = take n s @ rest" by simp
  then show ?case by blast
next
  case (Grp a)
  then show ?case by auto
qed

lemma in_match_Lit:
  "(g, rest) \<in> set (rx_match (Lit l) s) \<longleftrightarrow> g = [] \<and> s = l @ rest"
  by (auto simp: prefix_def)

lemma in_match_Seq:
  "(g, rest) \<in> set (rx_match (Seq a b) s) \<longleftrightarrow>
     (\<exists>g1 s1 g2. (g1, s1) \<in> set (rx_match a s) \<and> (g2, rest) \<in> set (rx_match b s1) \<and> g = g1 @ g2)"
  by force

lemma prefix_all_takeWhile:
  "(\<forall>c \<in> set w. P c) \<Longrightarrow> length w \<le> length (takeWhile P (w @ rest))"
  by (induction w) auto

lemma takeWhile_take_all:
  "i \<le> length (takeWhile P s) \<Longrightarrow> \<forall>c \<in> set (take i s). P c"
proof (induction s arbitrary: i)
  case Nil
  then show ?case by simp
next
  case (Cons x xs)
  then show ?case by (cases i) (auto split: if_splits)
qed

lemma set_match_Star:
  "set (rx_match (Star k) s) = (\<lambda>i. ([], drop i s)) ` {i. i \<le> length (takeWhile (in_cls k) s)}"
proof -
  have "set (rev [0 ..< Suc (length (takeWhile (in_cls k) s))]) = {i. i \<le> length (takeWhile (in_cls k) s)}"
    by (auto simp del: upt_Suc)
  then show ?thesis by (simp del: upt_Suc)
qed

lemma set_match_Plus:
  "set (rx_match (Plus k) s) =
     (\<lambda>i. ([], drop i s)) ` {i. 1 \<le> i \<and> i \<le> length (takeWhile (in_cls k) s)}"
proof -
  have "set (rev [1 ..< Suc (length (takeWhile (in_cls k) s))]) =
        {i. 1 \<le> i \<and> i \<le> length (takeWhile (in_cls k) s)}"
    by (auto simp del: upt_Suc)
  then show ?thesis by (simp del: upt_Suc)
qed

lemma in_match_Star:
  "(g, rest) \<in> set (rx_match (Star k) s) \<longleftrightarrow>
     g = [] \<and> (\<exists>w. s = w @ rest \<and> (\<forall>c \<in> set w. in_cls k c))"
proof
  assume "(g, rest) \<in> set (rx_match (Star k) s)"
  then obtain i where i: "i \<le> length (takeWhile (in_cls k) s)" "rest = drop i s" "g = []"
    unfolding set_match_Star by auto
  then have "s = take i s @ rest \<and> (\<forall>c \<in> set (take i s). in_cls k c)"
    using takeWhile_take_all[OF i(1)] by simp
  then show "g = [] \<and> (\<exists>w. s = w @ rest \<and> (\<forall>c \<in> set w. in_cls k c))"
    using i(3) by blast
next
  assume "g = [] \<and> (\<exists>w. s = w @ rest \<and> (\<forall>c \<in> set w. in_cls k c))"
  then obtain w where w: "g = []" "s = w @ rest" "\<forall>c \<in> set w. in_cls k c" by blast
  then have "length w \<le> length (takeWhile (in_cls k) s)"
    using prefix_all_takeWhile by blast
  moreover have "rest = drop (length w) s" using w(2) by simp
  ultimately show "(g, rest) \<in> set (rx_match (Star k) s)"
    unfolding set_match_Star using w(1) by (intro image_eqI[of _ _ "length w"]) auto
qed

lemma in_match_Plus:
  "(g, rest) \<in> set (rx_match (Plus k) s) \<longleftrightarrow>
     g = [] \<and> (\<exists>w. s = w @ rest \<and> w \<noteq> [] \<and> (\<forall>c \<in> set w. in_cls k c))"
proof
  assume "(g, rest) \<in> set (rx_match (Plus k) s)"
  then obtain i where i: "1 \<le> i" "i \<le> length (takeWhile (in_cls k) s)" "rest = drop i s" "g = []"
    unfolding set_match_Plus by auto
  have "length (takeWhile (in_cls k) s) \<le> length s" by (rule length_takeWhile_le)
  then have "take i s \<noteq> []" using i(1,2) by auto
  then have "s = take i s @ rest \<and> take i s \<noteq> [] \<and> (\<forall>c \<in> set (take i s). in_cls k c)"
    using takeWhile_take_all[OF i(2)] i(3) by simp
  then show "g = [] \<and> (\<exists>w. s = w @ rest \<and> w \<noteq> [] \<and> (\<forall>c \<in> set w. in_cls k c))"
    using i(4) by blast
next
  assume "g = [] \<and> (\<exists>w. s = w @ rest \<and> w \<noteq> [] \<and> (\<forall>c \<in> set w. in_cls k c))"
  then obtain w where w: "g = []" "s = w @ rest" "w \<noteq> []" "\<forall>c \<in> set w. in_cls k c" by blast
  then have "length w \<le> length (takeWhile (in_cls k) s)"
    using prefix_all_takeWhile by blast
  moreover have "rest = drop (length w) s" using w(2) by simp
  moreover have "1 \<le> length w" using w(3) by (cases w) auto
  ultimately show "(g, rest) \<in> set (rx_match (Plus k) s)"
    unfolding set_match_Plus using w(1) by (intro image_eqI[of _ _ "length w"]) auto
qed


lemma in_match_Grp:
  "(g, rest) \<in> set (rx_match (Grp a) s) \<longleftrightarrow>
     (\<exists>w g'. s = w @ rest \<and> (g', rest) \<in> set (rx_match a s) \<and> g = w # g')"
proof
  assume "(g, rest) \<in> set (rx_match (Grp a) s)"
  then obtain g' where g': "(g', rest) \<in> set (rx_match a s)"
    "g = take (length s - length rest) s # g'" by auto
  then obtain w where "s = w @ rest" using rx_match_suffix by blast
  then show "\<exists>w g'. s = w @ rest \<and> (g', rest) \<in> set (rx_match a s) \<and> g = w # g'"
    using g' by auto
next
  assume "\<exists>w g'. s = w @ rest \<and> (g', rest) \<in> set (rx_match a s) \<and> g = w # g'"
  then obtain w g' where "s = w @ rest" "(g', rest) \<in> set (rx_match a s)" "g = w # g'" by blast
  then show "(g, rest) \<in> set (rx_match (Grp a) s)"
    by (auto simp: image_iff intro!: bexI[of _ "(g', rest)"])
qed


lemma in_match_Opt:
  "(g, rest) \<in> set (rx_match (Opt a) s) \<longleftrightarrow>
     (g, rest) \<in> set (rx_match a s) \<or> (g = [] \<and> rest = s)"
  by auto

lemma rx_search_Some:
  "rx_search r t = Some g \<Longrightarrow> \<exists>pre s rest. t = pre @ s \<and> (g, rest) \<in> set (rx_match r s)"
proof (induction t)
  case Nil
  then show ?case by (auto split: list.splits)
next
  case (Cons x xs)
  show ?case
  proof (cases "rx_match r (x # xs)")
    case Nil
    then have "rx_search r xs = Some g" using Cons.prems by simp
    then obtain pre s rest where "xs = pre @ s" "(g, rest) \<in> set (rx_match r s)"
      using Cons.IH by blast
    then have "x # xs = (x # pre) @ s" by simp
    then show ?thesis using \<open>(g, rest) \<in> set (rx_match r s)\<close> by blast
  next
    case (Cons m ms)
    then have "Some (fst m) = Some g" using Cons.prems by (cases m) simp
    then have "(g, snd m) \<in> set (rx_match r (x # xs))" using Cons by auto
    then show ?thesis by (metis append_Nil)
  qed
qed

lemma rx_search_None:
  "rx_search r t = None \<longleftrightarrow> (\<forall>pre s. t = pre @ s \<longrightarrow> rx_match r s = [])"
proof (induction t)
  case Nil
  then show ?case by (auto split: list.splits)
next
  case (Cons x xs)
  show ?case
  proof (cases "rx_match r (x # xs)")
    case Nil
    have "(\<forall>pre s. x # xs = pre @ s \<longrightarrow> rx_match r s = []) \<longleftrightarrow>
          (\<forall>pre s. xs = pre @ s \<longrightarrow> rx_match r s = [])"
    proof
      assume a: "\<forall>pre s. x # xs = pre @ s \<longrightarrow> rx_match r s = []"
      show "\<forall>pre s. xs = pre @ s \<longrightarrow> rx_match r s = []"
      proof (intro allI impI)
        fix pre s assume "xs = pre @ s"
        then have "x # xs = (x # pre) @ s" by simp
        then show "rx_match r s = []" using a by blast
      qed
    next
      assume a: "\<forall>pre s. xs = pre @ s \<longrightarrow> rx_match r s = []"
      show "\<forall>pre s. x # xs = pre @ s \<longrightarrow> rx_match r s = []"
      proof (intro allI impI)
        fix pre s assume e: "x # xs = pre @ s"
        show "rx_match r s = []"
        proof (cases pre)
          case Nil
          then show ?thesis using e \<open>rx_match r (x # xs) = []\<close> by simp
        next
          case (Cons y ys)
          then have "xs = ys @ s" using e by simp
          then show ?thesis using a by blast
        qed
      qed
    qed
    then show ?thesis using Nil Cons.IH by simp
  next
    case (Cons m ms)
    then have "rx_search r (x # xs) \<noteq> None" by (cases m) simp
    moreover have "\<not> (\<forall>pre s. x # xs = pre @ s \<longrightarrow> rx_match r s = [])"
      using Cons by (metis append_Nil list.distinct(1))
    ultimately show ?thesis by blast
  qed
qed


section \<open>The price patterns\<close>

lemmas rx_eval = u_def is_space_def is_decimal_def decimal_value_def decimal_starts_def in_cls_def
  price_re_or_def price_re_def memory_re_def storage_re_def year_re_def screen_re_def chip_re_def
  cpu_re_def gpu_re_def huo_def fanxin_def tongyi_neicun_def gutai_yingpan_def zuichu_fabu_yu_def
  nian_def yingcun_def he_def he_zhongyang_chuliqi_def he_tuxing_chuliqi_def xianshiping_def
  shenkong_huise_def shenkong_heise_def yinse_def xingguangse_def wuyese_def tianlanse_def
  jinse_def meigui_jinse_def group_def







lemma in_cls_space: "in_cls [CSpace] c = is_space c"
  by (simp add: in_cls_def)


lemma in_cls_digit_comma: "in_cls [CDigit, CChar 44] c = (is_decimal c \<or> c = 44)"
  by (simp add: in_cls_def)

lemma in_match_price_re:
  "(g, rest) \<in> set (rx_match price_re s) \<longleftrightarrow>
     (\<exists>ws d. s = u ''RMB'' @ ws @ d @ rest \<and> (\<forall>c \<in> set ws. is_space c) \<and> price_chars d \<and> g = [d])"
  unfolding price_re_def seqs.simps in_match_Seq in_match_Lit in_match_Star in_match_Grp
    in_match_Plus in_cls_space in_cls_digit_comma price_chars_def
  by (auto simp: append_eq_append_conv2) 

lemma price_re_or_unfold: "price_re_or = Seq (Lit huo) (Seq (Star [CSpace]) price_re)"
  by (simp add: price_re_or_def price_re_def)

lemma in_match_price_re_or:
  "(g, rest) \<in> set (rx_match price_re_or s) \<longleftrightarrow>
     (\<exists>ws1 ws d. s = huo @ ws1 @ u ''RMB'' @ ws @ d @ rest \<and> (\<forall>c \<in> set ws1. is_space c) \<and>
        (\<forall>c \<in> set ws. is_space c) \<and> price_chars d \<and> g = [d])"
proof
  assume "(g, rest) \<in> set (rx_match price_re_or s)"
  then obtain s1 s2 where a: "s = huo @ s1" "(\<exists>w. s1 = w @ s2 \<and> (\<forall>c \<in> set w. is_space c))"
    "(g, rest) \<in> set (rx_match price_re s2)"
    unfolding price_re_or_unfold in_match_Seq in_match_Lit in_match_Star in_cls_space by auto
  then obtain w where w: "s1 = w @ s2" "\<forall>c \<in> set w. is_space c" by blast
  obtain ws d where d: "s2 = u ''RMB'' @ ws @ d @ rest" "\<forall>c \<in> set ws. is_space c"
    "price_chars d" "g = [d]"
    using a(3) unfolding in_match_price_re by blast
  have "s = huo @ w @ u ''RMB'' @ ws @ d @ rest" using a(1) w(1) d(1) by simp
  then show "\<exists>ws1 ws d. s = huo @ ws1 @ u ''RMB'' @ ws @ d @ rest \<and> (\<forall>c \<in> set ws1. is_space c) \<and>
        (\<forall>c \<in> set ws. is_space c) \<and> price_chars d \<and> g = [d]"
    using w(2) d(2,3,4) by blast
next
  assume "\<exists>ws1 ws d. s = huo @ ws1 @ u ''RMB'' @ ws @ d @ rest \<and> (\<forall>c \<in> set ws1. is_space c) \<and>
        (\<forall>c \<in> set ws. is_space c) \<and> price_chars d \<and> g = [d]"
  then obtain ws1 ws d where d: "s = huo @ ws1 @ u ''RMB'' @ ws @ d @ rest"
    "\<forall>c \<in> set ws1. is_space c" "\<forall>c \<in> set ws. is_space c" "price_chars d" "g = [d]"
    by blast
  let ?s2 = "u ''RMB'' @ ws @ d @ rest"
  have m: "(g, rest) \<in> set (rx_match price_re ?s2)"
    unfolding in_match_price_re using d(3,4,5) by blast
  have st: "([], ?s2) \<in> set (rx_match (Star [CSpace]) (ws1 @ ?s2))"
    unfolding in_match_Star in_cls_space using d(2) by blast
  have l: "([], ws1 @ ?s2) \<in> set (rx_match (Lit huo) s)"
    unfolding in_match_Lit using d(1) by simp
  have "(g, rest) \<in> set (rx_match (Seq (Star [CSpace]) price_re) (ws1 @ ?s2))"
    unfolding in_match_Seq using st m by (metis append_Nil)
  then show "(g, rest) \<in> set (rx_match price_re_or s)"
    unfolding price_re_or_unfold using l by (subst in_match_Seq) (metis append_Nil)
qed


lemma search_price_re_Some:
  "rx_search price_re t = Some g \<Longrightarrow> \<exists>d. g = [d] \<and> price_occurs t d"
proof -
  assume "rx_search price_re t = Some g"
  then obtain pre s rest where "t = pre @ s" "(g, rest) \<in> set (rx_match price_re s)"
    using rx_search_Some by blast
  then show ?thesis unfolding in_match_price_re price_occurs_def spaces_def by blast
qed

lemma search_price_re_or_Some:
  "rx_search price_re_or t = Some g \<Longrightarrow> \<exists>d. g = [d] \<and> price_or_occurs t d"
proof -
  assume "rx_search price_re_or t = Some g"
  then obtain pre s rest where "t = pre @ s" "(g, rest) \<in> set (rx_match price_re_or s)"
    using rx_search_Some by blast
  then show ?thesis unfolding in_match_price_re_or price_or_occurs_def spaces_def by blast
qed

lemma search_price_re_None:
  "rx_search price_re t = None \<longleftrightarrow> (\<forall>d. \<not> price_occurs t d)"
proof
  assume n: "rx_search price_re t = None"
  show "\<forall>d. \<not> price_occurs t d"
  proof (intro allI notI)
    fix d assume "price_occurs t d"
    then obtain pre ws post where o: "t = pre @ u ''RMB'' @ ws @ d @ post"
      "\<forall>c \<in> set ws. is_space c" "price_chars d"
      unfolding price_occurs_def spaces_def by blast
    then have "([d], post) \<in> set (rx_match price_re (u ''RMB'' @ ws @ d @ post))"
      unfolding in_match_price_re by blast
    moreover have "rx_match price_re (u ''RMB'' @ ws @ d @ post) = []"
      using n o(1) unfolding rx_search_None by blast
    ultimately show False by simp
  qed
next
  assume a: "\<forall>d. \<not> price_occurs t d"
  show "rx_search price_re t = None"
  proof (cases "rx_search price_re t")
    case None
    then show ?thesis .
  next
    case (Some g)
    then show ?thesis using search_price_re_Some a by blast
  qed
qed


lemma price_or_occurs_bare: "price_or_occurs t d \<Longrightarrow> price_occurs t d"
proof -
  assume "price_or_occurs t d"
  then obtain pre ws1 ws post where o: "t = pre @ huo @ ws1 @ u ''RMB'' @ ws @ d @ post"
      "\<forall>c \<in> set ws. is_space c" "price_chars d"
    unfolding price_or_occurs_def spaces_def by blast
  then have "t = (pre @ huo @ ws1) @ u ''RMB'' @ ws @ d @ post" by simp
  then show ?thesis using o(2,3) unfolding price_occurs_def spaces_def by blast
qed

lemma price_occurs_RMB: "price_occurs t d \<Longrightarrow> py_in (u ''RMB'') t"
  unfolding price_occurs_def py_in_sublist sublist_def by blast

lemma price_match_None: "price_match t = None \<longleftrightarrow> (\<forall>d. \<not> price_occurs t d)"
proof (cases "rx_search price_re_or t")
  case None
  then show ?thesis by (simp add: price_match_def search_price_re_None)
next
  case (Some g)
  then obtain d where "price_or_occurs t d" using search_price_re_or_Some by blast
  then have "price_occurs t d" by (rule price_or_occurs_bare)
  then show ?thesis using Some by (auto simp: price_match_def)
qed




lemma py_int_nonneg: "py_int s = Some n \<Longrightarrow> 0 \<le> n"
  by (auto simp: py_int_def split: if_splits)


section \<open>The memory, storage and year patterns\<close>























section \<open>Leftmost matches\<close>

lemma rx_search_no_match: "rx_search r t = None \<longleftrightarrow> no_match r t"
  unfolding no_match_def by (rule rx_search_None)




section \<open>Title rules\<close>






lemmas title_eval = extract_basic_details_def title_model_def title_screen_size_def title_chip_def
      title_cpu_cores_def title_gpu_cores_def colors_def


section \<open>The fill loop\<close>

lemma fill_item_other: "k \<noteq> fst kv \<Longrightarrow> fill_item kv p k = p k"
  by (simp add: fill_item_def split: option.split)

lemma fill_item_same:
  "fill_item kv p (fst kv) =
     (case p (fst kv) of None \<Rightarrow> Some (S (snd kv))
      | Some w \<Rightarrow> if truthy w then Some w else Some (S (snd kv)))"
  by (simp add: fill_item_def split: option.split)

lemma fold_fill_item_notin:
  "k \<notin> fst ` set kvs \<Longrightarrow> fold fill_item kvs p k = p k"
  by (induction kvs arbitrary: p) (auto simp: fill_item_other)

lemma fold_fill_item:
  "distinct (map fst kvs) \<Longrightarrow> fold fill_item kvs p k = filled_value p kvs k"
proof (induction kvs arbitrary: p)
  case Nil
  then show ?case by (simp add: filled_value_def)
next
  case (Cons kv kvs)
  show ?case
  proof (cases "k = fst kv")
    case True
    then have "k \<notin> fst ` set kvs" using Cons.prems by auto
    then have "fold fill_item (kv # kvs) p k = fill_item kv p (fst kv)"
      using True by (simp add: fold_fill_item_notin)
    moreover have "filled_value p (kv # kvs) k = fill_item kv p (fst kv)"
      using True unfolding fill_item_same by (simp add: filled_value_def)
    ultimately show ?thesis by simp
  next
    case False
    have "fold fill_item (kv # kvs) p k = filled_value (fill_item kv p) kvs k"
      using Cons by simp
    then show ?thesis using False
      by (cases kv) (auto simp add: filled_value_def fill_item_other split: option.split)
  qed
qed

lemma distinct_basic_keys: "distinct (map fst (extract_basic_details title))"
  by (simp add: extract_basic_details_def)

lemma fill_product_title:
  "p ''title'' = Some (S title) \<Longrightarrow>
   \<exists>p'. fill_product p = Inr p' \<and> (\<forall>k. p' k = filled_value p (extract_basic_details title) k)"
  by (simp add: fill_product_def fold_fill_item distinct_basic_keys)

lemma fill_products_titles:
  "\<forall>p \<in> set ps. \<exists>t. p ''title'' = Some (S t) \<Longrightarrow>
   \<exists>filled. fill_products ps = Inr filled \<and> length filled = length ps \<and>
     (\<forall>i < length ps. \<forall>k. (filled ! i) k =
        filled_value (ps ! i) (extract_basic_details (str_of (ps ! i) ''title'')) k)"
proof (induction ps)
  case Nil
  then show ?case by simp
next
  case (Cons p ps)
  then obtain t where t: "p ''title'' = Some (S t)" by auto
  then have st: "str_of p ''title'' = t" by (simp add: str_of_def)
  obtain p' where p': "fill_product p = Inr p'"
    "\<forall>k. p' k = filled_value p (extract_basic_details t) k"
    using fill_product_title[of p t] t by blast
  obtain filled where f: "fill_products ps = Inr filled" "length filled = length ps"
    "\<forall>i < length ps. \<forall>k. (filled ! i) k =
        filled_value (ps ! i) (extract_basic_details (str_of (ps ! i) ''title'')) k"
    using Cons by auto
  have "\<forall>i < length (p # ps). \<forall>k. ((p' # filled) ! i) k =
        filled_value ((p # ps) ! i) (extract_basic_details (str_of ((p # ps) ! i) ''title'')) k"
  proof (intro allI impI)
    fix i k assume "i < length (p # ps)"
    then show "((p' # filled) ! i) k =
        filled_value ((p # ps) ! i) (extract_basic_details (str_of ((p # ps) ! i) ''title'')) k"
      using p'(2) f(3) st by (cases i) auto
  qed
  then show ?case using p'(1) f(1,2) by simp
qed

lemma filled_value_other:
  "k \<notin> fst ` set kvs \<Longrightarrow> filled_value p kvs k = p k"
proof -
  assume "k \<notin> fst ` set kvs"
  then have "map_of kvs k = None" by (simp add: map_of_eq_None_iff)
  then show ?thesis by (simp add: filled_value_def)
qed

lemma basic_keys:
  "fst ` set (extract_basic_details t) =
     {''model'', ''screen_size'', ''chip'', ''cpu_cores'', ''gpu_cores'', ''color''}"
  by (simp add: extract_basic_details_def)

section \<open>The table\<close>



lemma length_columns_order: "length columns_order = 12"
  by (simp add: columns_order_def)










lemma int_column_Some_iff:
  "int_column df c = Some ks \<longleftrightarrow>
     (\<forall>x \<in> set (column df c). int_cell x \<noteq> None) \<and>
     ks = map (\<lambda>x. case int_cell x of Some n \<Rightarrow> n | None \<Rightarrow> 0) (column df c)"
  by (auto simp: int_column_def list_all_iff)

lemma labelled_rows_frame_of: "labelled_rows (frame_of cs krs) = map snd krs"
  by (induction krs) (auto simp: labelled_rows_def frame_of_def)

lemma permuting_sorts_int_columns:
  assumes perm: "\<And>krs. mset (f krs) = mset krs"
    and srt: "\<And>krs. sorted (map fst (f krs))"
  shows "sorts_int_columns (\<lambda>by df. map_option (\<lambda>krs. frame_of (columns df) (f krs)) (keyed_rows df by))"
  unfolding sorts_int_columns_def
proof (intro conjI allI impI)
  fix c :: string and df df' :: dataframe
  assume "map_option (\<lambda>krs. frame_of (columns df) (f krs)) (keyed_rows df c) = Some df'"
  then show "columns df' = columns df" by (auto simp: frame_of_def)
next
  fix c :: string and df :: dataframe
  assume a: "c \<in> set (columns df) \<and> length (index df) = length (rows df) \<and>
        int_column df c \<noteq> None"
  then obtain ks where ks: "int_column df c = Some ks" by auto
  let ?pos = "column_pos (columns df) c"
  let ?krs = "zip ks (labelled_rows df)"
  let ?df' = "frame_of (columns df) (f ?krs)"
  have lenks: "length ks = length (rows df)"
    using ks by (auto simp: int_column_Some_iff column_def)
  have lenl: "length (labelled_rows df) = length (rows df)"
    using a by (simp add: labelled_rows_def)
  have inv: "\<forall>x \<in> set ?krs. int_cell (snd (snd x) ! ?pos) = Some (fst x)"
  proof
    fix x assume "x \<in> set ?krs"
    then obtain j where j: "j < length (rows df)" "x = (ks ! j, index df ! j, rows df ! j)"
      using lenks lenl a by (auto simp: in_set_zip labelled_rows_def prod_eq_iff)
    have c: "column df c ! j = rows df ! j ! ?pos" using j(1) by (simp add: column_def)
    have "column df c ! j \<in> set (column df c)" using j(1) by (simp add: column_def)
    then have "int_cell (column df c ! j) \<noteq> None"
      using ks by (auto simp: int_column_Some_iff)
    moreover have "ks ! j = (case int_cell (column df c ! j) of Some n \<Rightarrow> n | None \<Rightarrow> 0)"
      using ks j(1) by (auto simp: int_column_Some_iff column_def)
    ultimately show "int_cell (snd (snd x) ! ?pos) = Some (fst x)"
      using j(2) c by auto
  qed
  have "set (f ?krs) = set ?krs" using perm by (metis set_mset_mset)
  then have inv': "\<forall>x \<in> set (f ?krs). int_cell (snd (snd x) ! ?pos) = Some (fst x)"
    using inv by simp
  have col: "column ?df' c = map (\<lambda>x. snd (snd x) ! ?pos) (f ?krs)"
    by (simp add: column_def frame_of_def comp_def)
  have ic: "int_column ?df' c = Some (map fst (f ?krs))"
    unfolding int_column_Some_iff col using inv' by auto
  have "mset (labelled_rows ?df') = mset (map snd ?krs)"
    unfolding labelled_rows_frame_of using perm by (metis mset_map)
  also have "map snd ?krs = labelled_rows df" using lenks lenl by simp
  finally have m: "mset (labelled_rows ?df') = mset (labelled_rows df)" .
  have s: "keyed_rows df c = Some ?krs" using ks by (simp add: keyed_rows_def)
  have l: "length (index ?df') = length (rows ?df')" by (simp add: frame_of_def)
  show "\<exists>df'. map_option (\<lambda>krs. frame_of (columns df) (f krs)) (keyed_rows df c) = Some df' \<and>
           length (index df') = length (rows df') \<and>
           mset (labelled_rows df') = mset (labelled_rows df) \<and>
           (\<exists>ks. int_column df' c = Some ks \<and> sorted ks)"
    using s l m ic srt by auto
qed

lemma stable_sort_values_ok: "sorts_int_columns stable_sort_values"
proof -
  have "sorts_int_columns (\<lambda>by df. map_option (\<lambda>krs. frame_of (columns df) (sort_key fst krs)) (keyed_rows df by))"
    by (rule permuting_sorts_int_columns) simp_all
  then show ?thesis unfolding stable_sort_values_def[abs_def] .
qed



section \<open>The list discoverer\<close>

lemma first_occurrences_Nil: "first_occurrences [] = []"
  by (simp add: first_occurrences_def)

lemma first_occurrences_Cons:
  "first_occurrences (x # xs) = x # first_occurrences (filter (\<lambda>y. y \<noteq> x) xs)"
proof -
  have "\<And>ys. remdups (ys @ [x]) = remdups (filter (\<lambda>y. y \<noteq> x) ys) @ [x]"
  proof -
    fix ys show "remdups (ys @ [x]) = remdups (filter (\<lambda>y. y \<noteq> x) ys) @ [x]"
      by (induction ys) auto
  qed
  then show ?thesis by (simp add: first_occurrences_def rev_filter)
qed

lemma first_occurrences_filter:
  "first_occurrences (filter P xs) = filter P (first_occurrences xs)"
  by (simp add: first_occurrences_def rev_filter remdups_filter)

lemma set_first_occurrences: "set (first_occurrences xs) = set xs"
  by (simp add: first_occurrences_def)


lemma parse_links_spec:
  "parse_links ls seen acc =
     acc @ map (\<lambda>url. new_product (first_title (filter refurbished ls) url) url)
             (filter (\<lambda>url. url \<notin> seen) (first_occurrences (kept_urls ls)))"
proof (induction ls arbitrary: seen acc)
  case Nil
  then show ?case by (simp add: kept_urls_def first_occurrences_Nil)
next
  case (Cons l ls)
  let ?url = "normalize_url (href l)"
  show ?case
  proof (cases "refurbished l")
    case False
    then show ?thesis using Cons.IH by (simp add: refurbished_def kept_urls_def)
  next
    case True
    have ku: "kept_urls (l # ls) = ?url # kept_urls ls"
      using True by (simp add: kept_urls_def)
    have fo: "first_occurrences (kept_urls (l # ls)) =
        ?url # filter (\<lambda>y. y \<noteq> ?url) (first_occurrences (kept_urls ls))"
      unfolding ku first_occurrences_Cons first_occurrences_filter ..
    have ft: "\<And>url. url \<noteq> ?url \<Longrightarrow>
        first_title (filter refurbished (l # ls)) url = first_title (filter refurbished ls) url"
      using True by (simp add: first_title_def)
    have ft0: "first_title (filter refurbished (l # ls)) ?url = link_text l"
      using True by (simp add: first_title_def)
    have mapeq: "\<And>us. ?url \<notin> set us \<Longrightarrow>
        map (\<lambda>url. new_product (first_title (filter refurbished (l # ls)) url) url) us =
        map (\<lambda>url. new_product (first_title (filter refurbished ls) url) url) us"
    proof (intro map_cong refl)
      fix us x assume "?url \<notin> set us" "x \<in> set us"
      then have "x \<noteq> ?url" by auto
      then show "new_product (first_title (filter refurbished (l # ls)) x) x =
          new_product (first_title (filter refurbished ls) x) x"
        using ft by simp
    qed
    show ?thesis
    proof (cases "?url \<in> seen")
      case True
      have e: "filter (\<lambda>url. url \<notin> seen) (first_occurrences (kept_urls (l # ls))) =
            filter (\<lambda>url. url \<notin> seen) (first_occurrences (kept_urls ls))"
        unfolding fo using True by (auto intro: filter_cong)
      have n: "?url \<notin> set (filter (\<lambda>url. url \<notin> seen) (first_occurrences (kept_urls ls)))"
        using True by simp
      have m: "map (\<lambda>url. new_product (first_title (filter refurbished (l # ls)) url) url)
            (filter (\<lambda>url. url \<notin> seen) (first_occurrences (kept_urls (l # ls)))) =
          map (\<lambda>url. new_product (first_title (filter refurbished ls) url) url)
            (filter (\<lambda>url. url \<notin> seen) (first_occurrences (kept_urls ls)))"
        unfolding e by (rule mapeq[OF n])
      have p: "parse_links (l # ls) seen acc = parse_links ls seen acc"
        using \<open>refurbished l\<close> True by (simp add: refurbished_def)
      show ?thesis unfolding p m by (rule Cons.IH)
    next
      case False
      have f1: "filter (\<lambda>url. url \<notin> seen) (first_occurrences (kept_urls (l # ls))) =
            ?url # filter (\<lambda>url. url \<notin> insert ?url seen) (first_occurrences (kept_urls ls))"
        unfolding fo using False by (auto intro: filter_cong)
      have "?url \<notin> set (filter (\<lambda>url. url \<notin> insert ?url seen) (first_occurrences (kept_urls ls)))"
        by simp
      then have m: "map (\<lambda>url. new_product (first_title (filter refurbished (l # ls)) url) url)
            (filter (\<lambda>url. url \<notin> insert ?url seen) (first_occurrences (kept_urls ls))) =
          map (\<lambda>url. new_product (first_title (filter refurbished ls) url) url)
            (filter (\<lambda>url. url \<notin> insert ?url seen) (first_occurrences (kept_urls ls)))"
        by (rule mapeq)
      have "parse_links (l # ls) seen acc =
          parse_links ls (insert ?url seen) (acc @ [new_product (link_text l) ?url])"
        using \<open>refurbished l\<close> False by (simp add: refurbished_def Let_def)
      also have "\<dots> = (acc @ [new_product (link_text l) ?url]) @
          map (\<lambda>url. new_product (first_title (filter refurbished ls) url) url)
            (filter (\<lambda>url. url \<notin> insert ?url seen) (first_occurrences (kept_urls ls)))"
        by (rule Cons.IH)
      finally show ?thesis unfolding f1 using m ft0 by simp
    qed
  qed
qed

lemma parse_product_list_spec: "parse_product_list links = discover_spec links"
  by (simp add: parse_product_list_def parse_links_spec discover_spec_def kept_urls_def Let_def)



lemma normalize_url_nonempty: "normalize_url h \<noteq> []"
proof -
  have a: "\<And>s. prefix (u ''http'') s \<Longrightarrow> takeWhile (\<lambda>c. c \<noteq> 63) s \<noteq> []"
    by (auto simp: prefix_def u_def)
  have "prefix (u ''http'') (origin @ h)" by (simp add: origin_def u_def)
  then show ?thesis using a by (auto simp: normalize_url_def simp del: takeWhile_append)
qed

lemma find_SomeD: "find P xs = Some x \<Longrightarrow> x \<in> set xs"
  by (induction xs) (auto split: if_splits)

lemma parse_product_list_shape:
  "p \<in> set (parse_product_list links) \<Longrightarrow>
   \<exists>t url. p = new_product t url \<and> url \<noteq> [] \<and> prefix fanxin t"
proof -
  assume "p \<in> set (parse_product_list links)"
  then obtain url where u: "url \<in> set (kept_urls links)"
    "p = new_product (first_title (filter refurbished links) url) url"
    unfolding parse_product_list_spec discover_spec_def kept_urls_def
    by (auto simp: set_first_occurrences Let_def)
  then obtain l where l: "l \<in> set (filter refurbished links)" "normalize_url (href l) = url"
    by (auto simp: kept_urls_def)
  then obtain l' where f: "find (\<lambda>l. normalize_url (href l) = url) (filter refurbished links) = Some l'"
    by (cases "find (\<lambda>l. normalize_url (href l) = url) (filter refurbished links)")
       (auto simp: find_None_iff)
  have ft: "first_title (filter refurbished links) url = link_text l'"
    using f by (simp add: first_title_def)
  have "l' \<in> set (filter refurbished links)"
    using f by (rule find_SomeD)
  then have "first_title (filter refurbished links) url = link_text l'" "refurbished l'"
    using ft by auto
  then show ?thesis using u(2) l(2) normalize_url_nonempty
    by (auto simp: refurbished_def)
qed

section \<open>The detail pipeline\<close>

lemma fetch_page_2:
  "snd (fetch_page net url 2) =
     (case net url 0 of
        Inr b \<Rightarrow> Some b
      | Inl e \<Rightarrow> (case net url 1 of Inr b \<Rightarrow> Some b | Inl e' \<Rightarrow> None))"
proof -
  have "[0 ..< 2] = [0, 1]" by (simp add: upt_rec)
  then show ?thesis
    by (simp add: fetch_page_def split: sum.split prod.split)
qed

lemma fetch_page_2_None:
  "snd (fetch_page net url 2) = None \<longleftrightarrow> isl (net url 0) \<and> isl (net url 1)"
  unfolding fetch_page_2 by (auto split: sum.splits)

lemma detail_price_Nil: "detail_price [] = None"
  by (simp add: detail_price_def price_match_def rx_eval)

lemma fetch_product_details_url:
  assumes "p ''url'' = Some (S url)" "url \<noteq> []"
  shows "fetch_product_details net gt p =
     (case snd (fetch_page net url 2) of
        None \<Rightarrow> None
      | Some html \<Rightarrow>
          if html = [] then None
          else (case detail_price (gt html) of
                  None \<Rightarrow> None
                | Some n \<Rightarrow> Some (enrich p (gt html) n)))"
  using assms by (simp add: fetch_product_details_def Let_def split: option.split)

lemma fetch_product_details_Some:
  assumes "fetch_product_details net gt p = Some r"
  shows "\<exists>url html n. p ''url'' = Some (S url) \<and> url \<noteq> [] \<and>
           snd (fetch_page net url 2) = Some html \<and> html \<noteq> [] \<and>
           detail_price (gt html) = Some n \<and> r = enrich p (gt html) n"
  using assms
  by (auto simp: fetch_product_details_def Let_def
      split: option.splits val.splits if_splits)

lemma detail_price_nonneg: "detail_price t = Some n \<Longrightarrow> 0 \<le> n"
  by (auto simp: detail_price_def split: option.splits dest: py_int_nonneg)

lemma detail_price_no_RMB: "\<not> py_in (u ''RMB'') t \<Longrightarrow> detail_price t = None"
proof -
  assume a: "\<not> py_in (u ''RMB'') t"
  have "\<forall>d. \<not> price_occurs t d" using a price_occurs_RMB by blast
  then have "price_match t = None" by (simp add: price_match_None)
  then show ?thesis by (simp add: detail_price_def)
qed

lemma snd_collect:
  "snd (collect task products order completed results) =
     results @ List.map_filter (\<lambda>i. task (products ! i)) order"
proof (induction order arbitrary: completed results)
  case Nil
  then show ?case by (simp add: List.map_filter_simps)
next
  case (Cons i order)
  show ?case
    using Cons.IH[of "completed + 1"]
    by (simp add: Let_def List.map_filter_simps case_prod_beta split: option.split)
qed

lemma snd_process:
  "snd (process_products_parallel net gt order products) =
     List.map_filter (\<lambda>i. fetch_product_details net gt (products ! i)) order"
  using snd_collect[of "fetch_product_details net gt" products order 0 "[]"]
  by (simp add: process_products_parallel_def case_prod_beta)

lemma process_single_rejected:
  "fetch_product_details net gt p = None \<Longrightarrow>
   process_products_parallel net gt [0] [p] = ([Print (Started 1), Print PleaseWait, Print (Finished 0 1)], [])"
  by (simp add: process_products_parallel_def)

section \<open>The page fetcher\<close>

lemma fetch_attempts_upt:
  "a \<le> retry \<Longrightarrow>
   fetch_attempts net url retry [a ..< retry] =
     (case find (\<lambda>k. \<not> isl (net url k)) [a ..< retry] of
        Some k \<Rightarrow> (concat (replicate (k - a) [Get url, Sleep 1]) @ [Get url], Some (projr (net url k)))
      | None \<Rightarrow>
          if a < retry
          then (concat (replicate (retry - 1 - a) [Get url, Sleep 1]) @
                  [Get url, Print (FetchFailed url (projl (net url (retry - 1))))], None)
          else ([], None))"
proof (induction "retry - a" arbitrary: a)
  case 0
  then show ?case by simp
next
  case (Suc n)
  then have lt: "a < retry" by simp
  have step: "[a ..< retry] = a # [Suc a ..< retry]"
    using lt by (simp add: upt_conv_Cons)
  have ih: "fetch_attempts net url retry [Suc a ..< retry] =
     (case find (\<lambda>k. \<not> isl (net url k)) [Suc a ..< retry] of
        Some k \<Rightarrow> (concat (replicate (k - Suc a) [Get url, Sleep 1]) @ [Get url], Some (projr (net url k)))
      | None \<Rightarrow>
          if Suc a < retry
          then (concat (replicate (retry - 1 - Suc a) [Get url, Sleep 1]) @
                  [Get url, Print (FetchFailed url (projl (net url (retry - 1))))], None)
          else ([], None))"
    using Suc.hyps(1)[of "Suc a"] Suc.hyps(2) lt by simp
  show ?case
  proof (cases "net url a")
    case (Inr body)
    then show ?thesis by (simp add: step)
  next
    case (Inl e)
    show ?thesis
    proof (cases "a = retry - 1")
      case True
      then have "[a ..< retry] = [a]" using lt by (simp add: upt_conv_Cons)
      then show ?thesis using Inl True lt by simp
    next
      case False
      then have lt2: "Suc a < retry" using lt by simp
      show ?thesis
      proof (cases "find (\<lambda>k. \<not> isl (net url k)) [Suc a ..< retry]")
        case None
        have "retry - 1 - a = Suc (retry - 1 - Suc a)" using lt2 by simp
        then show ?thesis using Inl False lt2 None ih by (simp add: step)
      next
        case (Some k)
        then have "k \<in> set [Suc a ..< retry]" by (auto simp: find_Some_iff)
        then have "k - a = Suc (k - Suc a)" by auto
        then show ?thesis using Inl False lt2 Some ih by (simp add: step)
      qed
    qed
  qed
qed

text \<open>
  Claim C7.  For every url, every \<open>retry \<ge> 1\<close> and every sequence of outcomes of the
  attempts, \<open>fetch_page\<close> returns the body of the first attempt that succeeds, having
  slept one second after each failed attempt before it; when all \<open>retry\<close> attempts fail
  it has slept between them only, prints the error of the last attempt and returns
  \<open>None\<close> instead of raising.
\<close>

theorem fetch_page_outcome:
  assumes "1 \<le> retry"
  shows "fetch_page net url retry =
     (case find (\<lambda>k. \<not> isl (net url k)) [0 ..< retry] of
        Some k \<Rightarrow> (concat (replicate k [Get url, Sleep 1]) @ [Get url], Some (projr (net url k)))
      | None \<Rightarrow>
          (concat (replicate (retry - 1) [Get url, Sleep 1]) @
             [Get url, Print (FetchFailed url (projl (net url (retry - 1))))], None))"
  using assms fetch_attempts_upt[of 0 retry net url]
  by (simp add: fetch_page_def split: option.split)

theorem fetch_page_outcome_witness:
  "(1::nat) \<le> 3 \<and>
   fetch_page (\<lambda>url k. if k = 1 then Inr (u ''<html>'') else Inl (u ''timeout'')) (u ''x'') 3 =
     ([Get (u ''x''), Sleep 1, Get (u ''x'')], Some (u ''<html>'')) \<and>
   fetch_page (\<lambda>url k. Inl (u ''timeout'')) (u ''x'') 2 =
     ([Get (u ''x''), Sleep 1, Get (u ''x''), Print (FetchFailed (u ''x'') (u ''timeout''))], None)"
  using fetch_page_outcome[of 3 "\<lambda>url k. if k = 1 then Inr (u ''<html>'') else Inl (u ''timeout'')" "u ''x''"]
        fetch_page_outcome[of 2 "\<lambda>url k. Inl (u ''timeout'')" "u ''x''"]
  by (simp add: upt_rec numeral_eq_Suc)

section \<open>Claim C1: the price\<close>



text \<open>The search takes the leftmost match: an earlier price wins over the one of the scenario.\<close>

lemma detail_price_leftmost_example:
  "detail_price (huo @ u '' RMB 1 '' @ huo @ u '' RMB 9,999 '') = Some 1"
  by (simp add: detail_price_def price_match_def py_int_def remove_commas_def
      int_max_str_digits_def rx_eval)

section \<open>Claim C8: memory, storage and release year\<close>




section \<open>Claim C9: the fields of a title\<close>




section \<open>Claim C3: the list discoverer\<close>




section \<open>Claim C5: the fill rule\<close>

text \<open>
  Claim C5.  When every record has a title, the fill loop of \<open>create_dataframe\<close> leaves
  every key other than the six title-derived ones as it is, and for each of the six it
  writes the title-derived value exactly when the record lacks the key or holds an empty
  value under it; a non-empty value is kept.
\<close>

theorem fill_precedence:
  assumes "\<forall>p \<in> set products. \<exists>t. p ''title'' = Some (S t)"
  shows "\<exists>filled. fill_products products = Inr filled \<and> length filled = length products \<and>
     (\<forall>i < length products. \<forall>k.
        (k \<notin> {''model'', ''screen_size'', ''chip'', ''cpu_cores'', ''gpu_cores'', ''color''} \<longrightarrow>
           (filled ! i) k = (products ! i) k) \<and>
        (\<forall>v. (k, v) \<in> set (extract_basic_details (str_of (products ! i) ''title'')) \<longrightarrow>
           (filled ! i) k =
             (case (products ! i) k of
                None \<Rightarrow> Some (S v)
              | Some w \<Rightarrow> if truthy w then Some w else Some (S v))))"
proof -
  obtain filled where f: "fill_products products = Inr filled"
    "length filled = length products"
    "\<forall>i < length products. \<forall>k. (filled ! i) k =
        filled_value (products ! i) (extract_basic_details (str_of (products ! i) ''title'')) k"
    using fill_products_titles[OF assms] by blast
  have "\<forall>i < length products. \<forall>k.
        (k \<notin> {''model'', ''screen_size'', ''chip'', ''cpu_cores'', ''gpu_cores'', ''color''} \<longrightarrow>
           (filled ! i) k = (products ! i) k) \<and>
        (\<forall>v. (k, v) \<in> set (extract_basic_details (str_of (products ! i) ''title'')) \<longrightarrow>
           (filled ! i) k =
             (case (products ! i) k of
                None \<Rightarrow> Some (S v)
              | Some w \<Rightarrow> if truthy w then Some w else Some (S v)))"
  proof (intro allI impI conjI)
    fix i k assume i: "i < length products"
      and k: "k \<notin> {''model'', ''screen_size'', ''chip'', ''cpu_cores'', ''gpu_cores'', ''color''}"
    have "k \<notin> fst ` set (extract_basic_details (str_of (products ! i) ''title''))"
      using k unfolding basic_keys .
    then show "(filled ! i) k = (products ! i) k"
      using f(3) i by (simp add: filled_value_other)
  next
    fix i k v assume i: "i < length products"
      and kv: "(k, v) \<in> set (extract_basic_details (str_of (products ! i) ''title''))"
    have "map_of (extract_basic_details (str_of (products ! i) ''title'')) k = Some v"
      using kv distinct_basic_keys by (rule map_of_is_SomeI[rotated])
    then show "(filled ! i) k =
             (case (products ! i) k of
                None \<Rightarrow> Some (S v)
              | Some w \<Rightarrow> if truthy w then Some w else Some (S v))"
      using f(3) i by (simp add: filled_value_def)
  qed
  then show ?thesis using f(1,2) by blast
qed

text \<open>A record with a model of its own and an empty chip.\<close>

theorem fill_precedence_witness:
  "fill_products [Map.empty(''title'' \<mapsto> S (u ''iMac''), ''model'' \<mapsto> S (u ''Mac''), ''chip'' \<mapsto> S [])] =
     Inr [Map.empty(''title'' \<mapsto> S (u ''iMac''), ''model'' \<mapsto> S (u ''Mac''), ''chip'' \<mapsto> S [],
           ''screen_size'' \<mapsto> S [], ''chip'' \<mapsto> S [], ''cpu_cores'' \<mapsto> S [],
           ''gpu_cores'' \<mapsto> S [], ''color'' \<mapsto> S [])] \<and>
   (\<exists>filled. fill_products [Map.empty(''title'' \<mapsto> S (u ''iMac''), ''model'' \<mapsto> S (u ''Mac''), ''chip'' \<mapsto> S [])] =
       Inr filled \<and> (filled ! 0) ''model'' = Some (S (u ''Mac'')))"
proof -
  let ?p = "[''title'' \<mapsto> S (u ''iMac''), ''model'' \<mapsto> S (u ''Mac''), ''chip'' \<mapsto> S []]"
  have e: "extract_basic_details (u ''iMac'') =
     [(''model'', u ''iMac''), (''screen_size'', []), (''chip'', []), (''cpu_cores'', []),
      (''gpu_cores'', []), (''color'', [])]"
    by (simp add: title_eval rx_eval)
  have nz: "u ''Mac'' \<noteq> []" by (simp add: u_def)
  have a: "fill_products [?p] =
     Inr [Map.empty(''title'' \<mapsto> S (u ''iMac''), ''model'' \<mapsto> S (u ''Mac''), ''chip'' \<mapsto> S [],
           ''screen_size'' \<mapsto> S [], ''chip'' \<mapsto> S [], ''cpu_cores'' \<mapsto> S [],
           ''gpu_cores'' \<mapsto> S [], ''color'' \<mapsto> S [])]"
    using nz by (simp add: fill_product_def e fill_item_def)
  have h: "\<forall>p \<in> set [?p]. \<exists>t. p ''title'' = Some (S t)" by simp
  have s: "str_of ?p ''title'' = u ''iMac''" by (simp add: str_of_def)
  have m: "(''model'', u ''iMac'') \<in> set (extract_basic_details (str_of ?p ''title''))"
    unfolding s e by simp
  obtain filled where f: "fill_products [?p] = Inr filled"
    "\<forall>i < length [?p]. \<forall>k.
        (k \<notin> {''model'', ''screen_size'', ''chip'', ''cpu_cores'', ''gpu_cores'', ''color''} \<longrightarrow>
           (filled ! i) k = ([?p] ! i) k) \<and>
        (\<forall>v. (k, v) \<in> set (extract_basic_details (str_of ([?p] ! i) ''title'')) \<longrightarrow>
           (filled ! i) k =
             (case ([?p] ! i) k of
                None \<Rightarrow> Some (S v)
              | Some w \<Rightarrow> if truthy w then Some w else Some (S v)))"
    using fill_precedence[OF h] by blast
  have "(filled ! 0) ''model'' =
      (case ?p ''model'' of None \<Rightarrow> Some (S (u ''iMac''))
       | Some w \<Rightarrow> if truthy w then Some w else Some (S (u ''iMac'')))"
    using f(2) m by force
  then have "(filled ! 0) ''model'' = Some (S (u ''Mac''))"
    using nz by simp
  then show ?thesis using a f(1) by blast
qed


section \<open>Claims C10 and C4: the table\<close>

text \<open>Evaluating \<open>create_dataframe\<close> on the example records.\<close>

lemmas frame_eval = create_dataframe_def fill_product_def fill_item_def ordered_frame_def
  cell_of_def columns_order_def reset_index_def column_def column_pos_def keyed_rows_def
  labelled_rows_def int_column_def frame_of_def enriched_def plain_row_def

lemma stable_example:
  "create_dataframe stable_sort_values
     [enriched (u ''A'') (u ''a'') 7, enriched (u ''B'') (u ''b'') 5] =
   Inr \<lparr>columns = columns_order, index = [0, 1],
        rows = [plain_row (u ''B'') (u ''b'') 5, plain_row (u ''A'') (u ''a'') 7]\<rparr>"
  by (simp add: frame_eval stable_sort_values_def title_eval rx_eval)


lemma create_dataframe_columns:
  assumes "sorts_int_columns sort_values" "products \<noteq> []"
    "create_dataframe sort_values products = Inr df"
  shows "columns df = columns_order"
proof -
  obtain filled df' where "fill_products products = Inr filled"
    "sort_values ''price'' (ordered_frame filled) = Some df'" "df = reset_index df'"
    using assms(2,3) by (auto simp: create_dataframe_def split: sum.splits option.splits)
  then show ?thesis
    using assms(1) unfolding sorts_int_columns_def
    by (auto simp: reset_index_def ordered_frame_def)
qed

text \<open>
  Claim C10.  \<open>create_dataframe\<close> answers an empty list of records with a table that has
  no columns, no labels and no rows, while every table it returns for a non-empty list has
  the twelve columns of \<open>columns_order\<close>.
\<close>

theorem empty_frame_without_columns:
  "create_dataframe sort_values [] = Inr \<lparr>columns = [], index = [], rows = []\<rparr> \<and>
   (sorts_int_columns sort_values \<and> products \<noteq> [] \<and>
    create_dataframe sort_values products = Inr df \<longrightarrow>
      columns df = columns_order \<and> length (columns df) = 12 \<and> columns df \<noteq> [])"
proof (intro conjI impI)
  show "create_dataframe sort_values [] = Inr \<lparr>columns = [], index = [], rows = []\<rparr>"
    by (simp add: create_dataframe_def)
next
  assume a: "sorts_int_columns sort_values \<and> products \<noteq> [] \<and>
    create_dataframe sort_values products = Inr df"
  then show c: "columns df = columns_order" using create_dataframe_columns by blast
  show "length (columns df) = 12" unfolding c by (rule length_columns_order)
  show "columns df \<noteq> []" unfolding c by (simp add: columns_order_def)
qed

text \<open>The empty list and a list of two records.\<close>

theorem empty_frame_without_columns_witness:
  "create_dataframe stable_sort_values [] = Inr \<lparr>columns = [], index = [], rows = []\<rparr> \<and>
   create_dataframe stable_sort_values
     [enriched (u ''A'') (u ''a'') 7, enriched (u ''B'') (u ''b'') 5] =
   Inr \<lparr>columns = columns_order, index = [0, 1],
        rows = [plain_row (u ''B'') (u ''b'') 5, plain_row (u ''A'') (u ''a'') 7]\<rparr> \<and>
   length columns_order = 12"
  using empty_frame_without_columns[of stable_sort_values
      "[enriched (u ''A'') (u ''a'') 7, enriched (u ''B'') (u ''b'') 5]"
      "\<lparr>columns = columns_order, index = [0, 1],
        rows = [plain_row (u ''B'') (u ''b'') 5, plain_row (u ''A'') (u ''a'') 7]\<rparr>"]
    stable_sort_values_ok stable_example
  by simp





section \<open>Claims C2 and C6: rejection\<close>

lemma candidate_url:
  "p \<in> set (parse_product_list links) \<Longrightarrow> \<exists>url. p ''url'' = Some (S url) \<and> url \<noteq> []"
proof -
  assume "p \<in> set (parse_product_list links)"
  then obtain t url where "p = new_product t url" "url \<noteq> []"
    using parse_product_list_shape by blast
  then show ?thesis by (auto simp: new_product_def)
qed

text \<open>
  Claim C2.  For a candidate that the list discoverer produced, \<open>fetch_product_details\<close>
  returns \<open>None\<close> exactly when both attempts to fetch its page fail or the text of the
  fetched page has no parseable price; otherwise it returns the record with price, memory,
  storage and release year, the last three empty when their patterns are absent.  A page
  without \<^verbatim>\<open>RMB\<close> is rejected, and a batch of this one candidate ends with no record and
  the count 0 of 1.  \<open>process_products_parallel\<close> returns the records of the candidates that
  were not rejected, in completion order.
\<close>

theorem rejection_policy:
  assumes "p \<in> set (parse_product_list links)" and "get_text [] = []"
  shows "(\<exists>url. p ''url'' = Some (S url) \<and>
     (fetch_product_details net get_text p = None \<longleftrightarrow>
        snd (fetch_page net url 2) = None \<or>
        (\<exists>html. snd (fetch_page net url 2) = Some html \<and> detail_price (get_text html) = None)) \<and>
     (snd (fetch_page net url 2) = None \<longleftrightarrow> isl (net url 0) \<and> isl (net url 1)) \<and>
     (\<forall>html n. snd (fetch_page net url 2) = Some html \<and> detail_price (get_text html) = Some n \<longrightarrow>
        fetch_product_details net get_text p = Some (enrich p (get_text html) n)) \<and>
     (\<forall>html n. snd (fetch_page net url 2) = Some html \<and> detail_price (get_text html) = Some n \<and>
        no_match memory_re (get_text html) \<and> no_match storage_re (get_text html) \<and>
        no_match year_re (get_text html) \<longrightarrow>
        fetch_product_details net get_text p =
          Some (p(''price'' \<mapsto> I n, ''memory'' \<mapsto> S [], ''storage'' \<mapsto> S [],
                  ''release_year'' \<mapsto> S []))) \<and>
     (\<forall>html. snd (fetch_page net url 2) = Some html \<and> \<not> py_in (u ''RMB'') (get_text html) \<longrightarrow>
        fetch_product_details net get_text p = None \<and>
        process_products_parallel net get_text [0] [p] =
          ([Print (Started 1), Print PleaseWait, Print (Finished 0 1)], []))) \<and>
   snd (process_products_parallel net get_text order products) =
     List.map_filter (\<lambda>i. fetch_product_details net get_text (products ! i)) order"
proof (intro conjI)
  obtain url where url: "p ''url'' = Some (S url)" "url \<noteq> []"
    using candidate_url[OF assms(1)] by blast
  have fpd: "fetch_product_details net get_text p =
     (case snd (fetch_page net url 2) of
        None \<Rightarrow> None
      | Some html \<Rightarrow>
          if html = [] then None
          else (case detail_price (get_text html) of
                  None \<Rightarrow> None
                | Some n \<Rightarrow> Some (enrich p (get_text html) n)))"
    using url by (rule fetch_product_details_url)
  have empty: "detail_price (get_text []) = None"
    using assms(2) by (simp add: detail_price_Nil)
  have some: "\<And>html n. snd (fetch_page net url 2) = Some html \<Longrightarrow>
      detail_price (get_text html) = Some n \<Longrightarrow>
      fetch_product_details net get_text p = Some (enrich p (get_text html) n)"
  proof -
    fix html n assume a: "snd (fetch_page net url 2) = Some html"
      "detail_price (get_text html) = Some n"
    then have "html \<noteq> []" using empty by auto
    then show "fetch_product_details net get_text p = Some (enrich p (get_text html) n)"
      unfolding fpd using a by simp
  qed
  have none: "fetch_product_details net get_text p = None \<longleftrightarrow>
        snd (fetch_page net url 2) = None \<or>
        (\<exists>html. snd (fetch_page net url 2) = Some html \<and> detail_price (get_text html) = None)"
    unfolding fpd using empty by (auto split: option.splits)
  have tolerate: "\<forall>html n. snd (fetch_page net url 2) = Some html \<and>
        detail_price (get_text html) = Some n \<and>
        no_match memory_re (get_text html) \<and> no_match storage_re (get_text html) \<and>
        no_match year_re (get_text html) \<longrightarrow>
        fetch_product_details net get_text p =
          Some (p(''price'' \<mapsto> I n, ''memory'' \<mapsto> S [], ''storage'' \<mapsto> S [],
                  ''release_year'' \<mapsto> S []))"
  proof (intro allI impI)
    fix html n
    assume a: "snd (fetch_page net url 2) = Some html \<and>
        detail_price (get_text html) = Some n \<and>
        no_match memory_re (get_text html) \<and> no_match storage_re (get_text html) \<and>
        no_match year_re (get_text html)"
    then have "detail_memory (get_text html) = []" "detail_storage (get_text html) = []"
      "detail_release_year (get_text html) = []"
      by (simp_all add: detail_memory_def detail_storage_def detail_release_year_def
          rx_search_no_match[symmetric])
    then have "enrich p (get_text html) n =
        p(''price'' \<mapsto> I n, ''memory'' \<mapsto> S [], ''storage'' \<mapsto> S [], ''release_year'' \<mapsto> S [])"
      by (simp add: enrich_def)
    then show "fetch_product_details net get_text p =
          Some (p(''price'' \<mapsto> I n, ''memory'' \<mapsto> S [], ''storage'' \<mapsto> S [],
                  ''release_year'' \<mapsto> S []))"
      using some a by simp
  qed
  have normb: "\<forall>html. snd (fetch_page net url 2) = Some html \<and>
        \<not> py_in (u ''RMB'') (get_text html) \<longrightarrow>
        fetch_product_details net get_text p = None \<and>
        process_products_parallel net get_text [0] [p] =
          ([Print (Started 1), Print PleaseWait, Print (Finished 0 1)], [])"
  proof (intro allI impI)
    fix html
    assume a: "snd (fetch_page net url 2) = Some html \<and> \<not> py_in (u ''RMB'') (get_text html)"
    then have "detail_price (get_text html) = None" by (simp add: detail_price_no_RMB)
    then have n: "fetch_product_details net get_text p = None" using none a by blast
    then show "fetch_product_details net get_text p = None \<and>
        process_products_parallel net get_text [0] [p] =
          ([Print (Started 1), Print PleaseWait, Print (Finished 0 1)], [])"
      using process_single_rejected by blast
  qed
  show "\<exists>url. p ''url'' = Some (S url) \<and>
     (fetch_product_details net get_text p = None \<longleftrightarrow>
        snd (fetch_page net url 2) = None \<or>
        (\<exists>html. snd (fetch_page net url 2) = Some html \<and> detail_price (get_text html) = None)) \<and>
     (snd (fetch_page net url 2) = None \<longleftrightarrow> isl (net url 0) \<and> isl (net url 1)) \<and>
     (\<forall>html n. snd (fetch_page net url 2) = Some html \<and> detail_price (get_text html) = Some n \<longrightarrow>
        fetch_product_details net get_text p = Some (enrich p (get_text html) n)) \<and>
     (\<forall>html n. snd (fetch_page net url 2) = Some html \<and> detail_price (get_text html) = Some n \<and>
        no_match memory_re (get_text html) \<and> no_match storage_re (get_text html) \<and>
        no_match year_re (get_text html) \<longrightarrow>
        fetch_product_details net get_text p =
          Some (p(''price'' \<mapsto> I n, ''memory'' \<mapsto> S [], ''storage'' \<mapsto> S [],
                  ''release_year'' \<mapsto> S []))) \<and>
     (\<forall>html. snd (fetch_page net url 2) = Some html \<and> \<not> py_in (u ''RMB'') (get_text html) \<longrightarrow>
        fetch_product_details net get_text p = None \<and>
        process_products_parallel net get_text [0] [p] =
          ([Print (Started 1), Print PleaseWait, Print (Finished 0 1)], []))"
    using url(1) none fetch_page_2_None some tolerate normb
    by (intro exI[of _ url] conjI) blast+
  show "snd (process_products_parallel net get_text order products) =
     List.map_filter (\<lambda>i. fetch_product_details net get_text (products ! i)) order"
    by (rule snd_process)
qed

text \<open>A candidate whose page says "sold out".\<close>

theorem rejection_policy_witness:
  "new_product (fanxin @ u '' iMac'') (u ''https://www.apple.com.cn/shop/product/A1/a'')
     \<in> set (parse_product_list
          [\<lparr>href = u ''/shop/product/A1/a?fnode=1'', link_text = fanxin @ u '' iMac''\<rparr>]) \<and>
   id ([]::ustr) = [] \<and>
   fetch_product_details (serving (u ''sold out'')) id
     (new_product (fanxin @ u '' iMac'') (u ''https://www.apple.com.cn/shop/product/A1/a'')) = None \<and>
   process_products_parallel (serving (u ''sold out'')) id [0]
     [new_product (fanxin @ u '' iMac'') (u ''https://www.apple.com.cn/shop/product/A1/a'')] =
     ([Print (Started 1), Print PleaseWait, Print (Finished 0 1)], [])"
proof -
  let ?p = "new_product (fanxin @ u '' iMac'') (u ''https://www.apple.com.cn/shop/product/A1/a'')"
  let ?links = "[\<lparr>href = u ''/shop/product/A1/a?fnode=1'', link_text = fanxin @ u '' iMac''\<rparr>]"
  let ?url = "u ''https://www.apple.com.cn/shop/product/A1/a''"
  have n: "normalize_url (u ''/shop/product/A1/a?fnode=1'') = ?url"
    by (simp add: normalize_url_def origin_def u_def)
  have "parse_product_list ?links = [?p]"
    by (simp add: parse_product_list_def n)
  then have m: "?p \<in> set (parse_product_list ?links)" by simp
  have i: "id ([]::ustr) = []" by simp
  have pu: "?p ''url'' = Some (S ?url)" by (simp add: new_product_def)
  have f: "snd (fetch_page (serving (u ''sold out'')) ?url 2) = Some (u ''sold out'')"
    by (simp add: fetch_page_2 serving_def)
  have r: "\<not> py_in (u ''RMB'') (id (u ''sold out''))" by (simp add: u_def)
  obtain url where u: "?p ''url'' = Some (S url)"
    "\<forall>html. snd (fetch_page (serving (u ''sold out'')) url 2) = Some html \<and>
        \<not> py_in (u ''RMB'') (id html) \<longrightarrow>
        fetch_product_details (serving (u ''sold out'')) id ?p = None \<and>
        process_products_parallel (serving (u ''sold out'')) id [0] [?p] =
          ([Print (Started 1), Print PleaseWait, Print (Finished 0 1)], [])"
    using rejection_policy[where p = ?p and links = ?links and get_text = id
        and net = "serving (u ''sold out'')"] m i by blast
  have "url = ?url" using u(1) pu by simp
  then have "fetch_product_details (serving (u ''sold out'')) id ?p = None \<and>
        process_products_parallel (serving (u ''sold out'')) id [0] [?p] =
          ([Print (Started 1), Print PleaseWait, Print (Finished 0 1)], [])"
    using u(2) f r by blast
  then show ?thesis using m i by blast
qed

text \<open>
  Claim C6, as amended.  Every record that \<open>fetch_product_details\<close> returns, and so every
  record that \<open>process_products_parallel\<close> returns, holds under \<^verbatim>\<open>'price'\<close> an integer that is
  not negative and that was parsed from the text of its detail page; a candidate whose
  page has no parseable price gets no record.
\<close>

theorem surviving_price:
  "(fetch_product_details net get_text p = Some r \<longrightarrow>
      (\<exists>html n. detail_price (get_text html) = Some n \<and> r ''price'' = Some (I n) \<and> 0 \<le> n)) \<and>
   (p ''url'' = Some (S url) \<and> snd (fetch_page net url 2) = Some html \<and>
    detail_price (get_text html) = None \<longrightarrow>
      fetch_product_details net get_text p = None) \<and>
   (r \<in> set (snd (process_products_parallel net get_text order products)) \<longrightarrow>
      (\<exists>n. r ''price'' = Some (I n) \<and> 0 \<le> n))"
proof (intro conjI impI)
  assume "fetch_product_details net get_text p = Some r"
  then obtain url html n where a: "detail_price (get_text html) = Some n"
    "r = enrich p (get_text html) n"
    using fetch_product_details_Some by blast
  have "0 \<le> n" using a(1) by (rule detail_price_nonneg)
  then show "\<exists>html n. detail_price (get_text html) = Some n \<and> r ''price'' = Some (I n) \<and> 0 \<le> n"
    using a by (auto simp: enrich_def)
next
  assume a: "p ''url'' = Some (S url) \<and> snd (fetch_page net url 2) = Some html \<and>
    detail_price (get_text html) = None"
  show "fetch_product_details net get_text p = None"
  proof (cases "url = []")
    case True
    then show ?thesis using a by (simp add: fetch_product_details_def)
  next
    case False
    have "fetch_product_details net get_text p =
     (case snd (fetch_page net url 2) of
        None \<Rightarrow> None
      | Some html \<Rightarrow>
          if html = [] then None
          else (case detail_price (get_text html) of
                  None \<Rightarrow> None
                | Some n \<Rightarrow> Some (enrich p (get_text html) n)))"
      using a False by (intro fetch_product_details_url) simp_all
    then show ?thesis using a by simp
  qed
next
  assume "r \<in> set (snd (process_products_parallel net get_text order products))"
  then obtain i where "fetch_product_details net get_text (products ! i) = Some r"
    unfolding snd_process by (auto simp: List.map_filter_def)
  then obtain url html n where a: "detail_price (get_text html) = Some n"
    "r = enrich (products ! i) (get_text html) n"
    using fetch_product_details_Some by blast
  have "0 \<le> n" using a(1) by (rule detail_price_nonneg)
  then show "\<exists>n. r ''price'' = Some (I n) \<and> 0 \<le> n"
    using a by (auto simp: enrich_def)
qed

lemma price_1299:
  "fetch_product_details (serving (u ''RMB 1,299'')) id (new_product (u ''t'') (u ''x'')) =
     Some ((new_product (u ''t'') (u ''x''))
        (''price'' \<mapsto> I 1299, ''memory'' \<mapsto> S [], ''storage'' \<mapsto> S [], ''release_year'' \<mapsto> S []))"
proof -
  have u: "new_product (u ''t'') (u ''x'') ''url'' = Some (S (u ''x''))" "u ''x'' \<noteq> []"
    by (simp_all add: new_product_def u_def)
  have f: "snd (fetch_page (serving (u ''RMB 1,299'')) (u ''x'') 2) = Some (u ''RMB 1,299'')"
    by (simp add: fetch_page_2 serving_def)
  have d: "detail_price (u ''RMB 1,299'') = Some 1299"
    by (simp add: detail_price_def price_match_def py_int_def remove_commas_def
        int_max_str_digits_def rx_eval)
  have m: "detail_memory (u ''RMB 1,299'') = []" "detail_storage (u ''RMB 1,299'') = []"
    "detail_release_year (u ''RMB 1,299'') = []"
    by (simp_all add: detail_memory_def detail_storage_def detail_release_year_def rx_eval)
  have nz: "u ''RMB 1,299'' \<noteq> []" by (simp add: u_def)
  show ?thesis
    unfolding fetch_product_details_url[of "new_product (u ''t'') (u ''x'')" "u ''x''", OF u] f
    using d m nz by (simp add: enrich_def)
qed

text \<open>A page with the price 1,299.\<close>

theorem surviving_price_witness:
  "fetch_product_details (serving (u ''RMB 1,299'')) id (new_product (u ''t'') (u ''x'')) =
     Some ((new_product (u ''t'') (u ''x''))
        (''price'' \<mapsto> I 1299, ''memory'' \<mapsto> S [], ''storage'' \<mapsto> S [], ''release_year'' \<mapsto> S [])) \<and>
   (\<exists>html n. detail_price (id html) = Some n \<and> 0 \<le> n)"
  using surviving_price[of "serving (u ''RMB 1,299'')" id "new_product (u ''t'') (u ''x'')"
      "(new_product (u ''t'') (u ''x''))
        (''price'' \<mapsto> I 1299, ''memory'' \<mapsto> S [], ''storage'' \<mapsto> S [], ''release_year'' \<mapsto> S [])"]
    price_1299
  by blast

text \<open>
  Claim C6 as stated says that the price of a surviving record is positive.  A page whose
  price reads \<^verbatim>\<open>RMB 0\<close> gives a record with the price 0.
\<close>

theorem surviving_price_counterexample:
  "fetch_product_details (serving (u ''RMB 0'')) id (new_product (u ''t'') (u ''x'')) =
     Some ((new_product (u ''t'') (u ''x''))
        (''price'' \<mapsto> I 0, ''memory'' \<mapsto> S [], ''storage'' \<mapsto> S [], ''release_year'' \<mapsto> S []))"
proof -
  have u: "new_product (u ''t'') (u ''x'') ''url'' = Some (S (u ''x''))" "u ''x'' \<noteq> []"
    by (simp_all add: new_product_def u_def)
  have f: "snd (fetch_page (serving (u ''RMB 0'')) (u ''x'') 2) = Some (u ''RMB 0'')"
    by (simp add: fetch_page_2 serving_def)
  have d: "detail_price (u ''RMB 0'') = Some 0"
    by (simp add: detail_price_def price_match_def py_int_def remove_commas_def
        int_max_str_digits_def rx_eval)
  have m: "detail_memory (u ''RMB 0'') = []" "detail_storage (u ''RMB 0'') = []"
    "detail_release_year (u ''RMB 0'') = []"
    by (simp_all add: detail_memory_def detail_storage_def detail_release_year_def rx_eval)
  have nz: "u ''RMB 0'' \<noteq> []" by (simp add: u_def)
  show ?thesis
    unfolding fetch_product_details_url[of "new_product (u ''t'') (u ''x'')" "u ''x''", OF u] f
    using d m nz by (simp add: enrich_def)
qed


end
